theory Spec2Isabelle
  imports Complex_Main
begin

section \<open>JavaScript values read from the form\<close>

text \<open>
  The script reads every field as a string (\<open>element.value\<close>) and turns it into a number
  with the built-ins \<open>parseInt\<close> and \<open>parseFloat\<close>. A JavaScript number is modelled by
  the exact value its decimal literal denotes, together with \<open>NaN\<close> and the two infinities;
  the rounding of IEEE doubles is not modelled. Strings are ASCII.
\<close>

datatype jsnum = NaN | PosInfinity | NegInfinity | Num rat

text \<open>Truthiness as \<open>&&\<close>, \<open>||\<close> and \<open>if\<close> see it: \<open>NaN\<close> and zero are falsy.\<close>

fun truthy :: "jsnum \<Rightarrow> bool" where
  "truthy NaN = False"
| "truthy PosInfinity = True"
| "truthy NegInfinity = True"
| "truthy (Num r) = (r \<noteq> 0)"

text \<open>\<open>a || b\<close> on numbers.\<close>

definition js_or :: "jsnum \<Rightarrow> jsnum \<Rightarrow> jsnum" where
  "js_or a b = (if truthy a then a else b)"

definition is_space :: "char \<Rightarrow> bool" where
  "is_space c \<longleftrightarrow>
     c = CHR '' '' \<or> c = CHR 0x09 \<or> c = CHR 0x0A \<or> c = CHR 0x0B \<or> c = CHR 0x0C \<or> c = CHR 0x0D"

text \<open>
  The value of a digit, from its character code: \<open>0\<close> to \<open>9\<close> are the codes 48 to 57,
  \<open>A\<close> to \<open>F\<close> the codes 65 to 70 and \<open>a\<close> to \<open>f\<close> the codes 97 to 102.
\<close>

definition dec_digit :: "char \<Rightarrow> int option" where
  "dec_digit c =
     (let code = of_char c :: int
      in if 48 \<le> code \<and> code \<le> 57 then Some (code - 48) else None)"

definition hex_digit :: "char \<Rightarrow> int option" where
  "hex_digit c =
     (let code = of_char c :: int
      in if 97 \<le> code \<and> code \<le> 102 then Some (code - 87)
         else if 65 \<le> code \<and> code \<le> 70 then Some (code - 55)
         else dec_digit c)"

text \<open>The longest prefix of digits, as their values.\<close>

fun take_digits :: "(char \<Rightarrow> int option) \<Rightarrow> string \<Rightarrow> int list" where
  "take_digits dv [] = []"
| "take_digits dv (c # cs) =
     (case dv c of None \<Rightarrow> [] | Some d \<Rightarrow> d # take_digits dv cs)"

fun drop_digits :: "(char \<Rightarrow> int option) \<Rightarrow> string \<Rightarrow> string" where
  "drop_digits dv [] = []"
| "drop_digits dv (c # cs) =
     (case dv c of None \<Rightarrow> c # cs | Some d \<Rightarrow> drop_digits dv cs)"

definition digits_value :: "int \<Rightarrow> int list \<Rightarrow> int" where
  "digits_value radix ds = foldl (\<lambda>acc d. acc * radix + d) 0 ds"

text \<open>An optional leading sign: whether it is a minus, and the rest.\<close>

fun strip_sign :: "string \<Rightarrow> bool \<times> string" where
  "strip_sign [] = (False, [])"
| "strip_sign (c # cs) =
     (if c = CHR ''-'' then (True, cs)
      else if c = CHR ''+'' then (False, cs)
      else (False, c # cs))"

text \<open>
  \<open>parseInt(string)\<close> with no radix: leading white space is skipped, a sign is read,
  a prefix \<open>0x\<close> or \<open>0X\<close> selects radix 16, and the longest prefix of digits is the value;
  with no digit the result is \<open>NaN\<close>.
\<close>

definition parseInt :: "string \<Rightarrow> jsnum" where
  "parseInt s =
     (let (neg, s2) = strip_sign (dropWhile is_space s);
          hex = (take 2 s2 = ''0x'' \<or> take 2 s2 = ''0X'');
          z = (if hex then take_digits hex_digit (drop 2 s2) else take_digits dec_digit s2);
          mathInt = digits_value (if hex then 16 else 10) z
      in if z = [] then NaN
         else Num (of_int (if neg then - mathInt else mathInt)))"

text \<open>The exponent part \<open>e\<close>, sign, digits; it counts only when a digit follows.\<close>

definition exponent_part :: "string \<Rightarrow> int" where
  "exponent_part s =
     (case s of
        [] \<Rightarrow> 0
      | c # cs \<Rightarrow>
          if c = CHR ''e'' \<or> c = CHR ''E'' then
            (let (eneg, r) = strip_sign cs;
                 ed = take_digits dec_digit r;
                 e = digits_value 10 ed
             in if ed = [] then 0 else if eneg then - e else e)
          else 0)"

definition scale10 :: "rat \<Rightarrow> int \<Rightarrow> rat" where
  "scale10 m e = (if 0 \<le> e then m * 10 ^ nat e else m / 10 ^ nat (- e))"

text \<open>
  \<open>parseFloat(string)\<close>: leading white space is skipped and the longest prefix that is
  a decimal literal (sign, \<open>Infinity\<close> or digits with an optional fraction and exponent)
  is the value; with no such prefix the result is \<open>NaN\<close>.
\<close>

definition parseFloat :: "string \<Rightarrow> jsnum" where
  "parseFloat s =
     (let (neg, s2) = strip_sign (dropWhile is_space s)
      in if take 8 s2 = ''Infinity'' then (if neg then NegInfinity else PosInfinity)
         else
           (let ip = take_digits dec_digit s2;
                r1 = drop_digits dec_digit s2;
                dot = (case r1 of [] \<Rightarrow> False | c # cs \<Rightarrow> c = CHR ''.'');
                fp = (if dot then take_digits dec_digit (tl r1) else []);
                r2 = (if dot then drop_digits dec_digit (tl r1) else r1);
                m = of_int (digits_value 10 (ip @ fp)) / 10 ^ length fp;
                v = scale10 m (exponent_part r2)
            in if ip = [] \<and> fp = [] then NaN
               else Num (if neg then - v else v)))"

section \<open>The page: posts, staff groups, equipment rows\<close>

text \<open>
  The document is modelled by the tree that \<open>addPost\<close> and \<open>addStaff\<close> build. An element
  id \<open>post-P\<close> is the number \<open>P\<close>, an id \<open>staff-P-N\<close> is the pair \<open>(P, N)\<close>; the inputs
  \<open>hours-P\<close>, \<open>days-P\<close> and \<open>staff-P-N-position\<close>, \<open>-count\<close>, \<open>-salary\<close> are fields of
  the card and of the group they are created with. The title \<open>post-title\<close> of a card
  holds the displayed number. Lists are in document order.
\<close>

record staff_group =
  group_id :: "nat \<times> nat"
  position_input :: string
  count_input :: string
  salary_input :: string

record post_card =
  card_id :: nat
  post_title :: nat
  hours_input :: string
  days_input :: string
  staff_groups :: "staff_group list"

text \<open>A row of the equipment selection: the checkbox \<open>tmc-check-I\<close> and the input \<open>tmc-qty-I\<close>.\<close>

record tmc_row =
  check_checked :: bool
  qty_input :: string

text \<open>
  The ids of the elements of the document, by their shapes. The script gives ids to the
  elements it creates: \<open>post-P\<close>, \<open>hours-P\<close>, \<open>days-P\<close> and \<open>staff-P\<close> for a card, its two
  inputs and the container of its staff groups; \<open>staff-P-N\<close>, \<open>staff-P-N-position\<close>,
  \<open>staff-P-N-count\<close> and \<open>staff-P-N-salary\<close> for a group and its three inputs;
  \<open>tmc-check-I\<close> and \<open>tmc-qty-I\<close> for the two inputs of an equipment row. Of the HTML
  page, which is not part of the script, the model holds the four elements that these
  handlers look up by a fixed id, \<open>posts-container\<close>, \<open>tmc-selection\<close>, \<open>markup\<close> and
  \<open>result\<close>, taken as separate elements; the other elements of that page are left out.
\<close>

datatype element_id =
    PostsContainerId
  | TmcSelectionId
  | MarkupId
  | ResultId
  | PostId nat
  | HoursId nat
  | DaysId nat
  | StaffContainerId nat
  | GroupId "nat \<times> nat"
  | PositionId "nat \<times> nat"
  | CountId "nat \<times> nat"
  | SalaryId "nat \<times> nat"
  | TmcCheckId nat
  | TmcQtyId nat

text \<open>
  The globals \<open>postCounter\<close>, \<open>staffCounter\<close> and \<open>tmcItems\<close> (of an item only \<open>item.id\<close>
  is read here), the cards of \<open>posts-container\<close>, the rows of \<open>tmc-selection\<close> by id,
  the \<open>markup\<close> input, and the \<open>result\<close> block: whether it is hidden and the result it
  renders. The type \<open>'r\<close> is the JSON result of the server.

  A card or a group that is removed from the document leaves its list. An input or a
  container that is removed by its own id is recorded in \<open>detached\<close>: \<open>getElementById\<close>
  no longer finds it, while the card or group it belonged to stays. The script never
  gives the id of a removed element to a new one.
\<close>

record 'r page =
  postCounter :: nat
  staffCounter :: "nat \<rightharpoonup> nat"
  post_cards :: "post_card list"
  tmcItems :: "nat list"
  tmc_rows :: "nat \<rightharpoonup> tmc_row"
  markup_input :: string
  result_hidden :: bool
  result_shown :: "'r option"
  detached :: "element_id set"

text \<open>
  The page as loaded, before the \<open>DOMContentLoaded\<close> handler adds the first post. The
  initial content of the \<open>markup\<close> input comes from the HTML page, so it is a parameter;
  the \<open>result\<close> block starts hidden (\<open>displayResult\<close> removes the class).
\<close>

definition initial_page :: "string \<Rightarrow> 'r page" where
  "initial_page markup =
     \<lparr>postCounter = 0, staffCounter = Map.empty, post_cards = [], tmcItems = [],
      tmc_rows = Map.empty, markup_input = markup, result_hidden = True,
      result_shown = None, detached = {}\<rparr>"

text \<open>
  What the script can throw: a TypeError from \<open>null.value\<close> or \<open>null.appendChild\<close>, the
  \<open>Error\<close> it raises itself on a response that is not ok, the rejection of \<open>fetch\<close>, and
  the rejection of \<open>response.json()\<close>.
\<close>

datatype exn = TypeError | CalcError | FetchError | JsonError

text \<open>
  \<open>document.getElementById\<close>: the first element in document order with the id, for a
  card and for a staff group.
\<close>

definition getPostCard :: "nat \<Rightarrow> 'r page \<Rightarrow> post_card option" where
  "getPostCard i st = find (\<lambda>p. card_id p = i) (post_cards st)"

definition all_groups :: "'r page \<Rightarrow> staff_group list" where
  "all_groups st = concat (map staff_groups (post_cards st))"

definition getStaffGroup :: "nat \<times> nat \<Rightarrow> 'r page \<Rightarrow> staff_group option" where
  "getStaffGroup sid st = find (\<lambda>g. group_id g = sid) (all_groups st)"

text \<open>
  \<open>document.getElementById(id)\<close> is not \<open>null\<close>: the document has an element with the id.
  An input or a container is there when the card, the group or the row it was created with
  is there and it has not been removed itself.
\<close>

fun element_present :: "'r page \<Rightarrow> element_id \<Rightarrow> bool" where
  "element_present st (PostId p) = (getPostCard p st \<noteq> None)"
| "element_present st (GroupId sid) = (getStaffGroup sid st \<noteq> None)"
| "element_present st (HoursId p) = (getPostCard p st \<noteq> None \<and> HoursId p \<notin> detached st)"
| "element_present st (DaysId p) = (getPostCard p st \<noteq> None \<and> DaysId p \<notin> detached st)"
| "element_present st (StaffContainerId p) =
     (getPostCard p st \<noteq> None \<and> StaffContainerId p \<notin> detached st)"
| "element_present st (PositionId sid) =
     (getStaffGroup sid st \<noteq> None \<and> PositionId sid \<notin> detached st)"
| "element_present st (CountId sid) =
     (getStaffGroup sid st \<noteq> None \<and> CountId sid \<notin> detached st)"
| "element_present st (SalaryId sid) =
     (getStaffGroup sid st \<noteq> None \<and> SalaryId sid \<notin> detached st)"
| "element_present st (TmcCheckId i) = (tmc_rows st i \<noteq> None \<and> TmcCheckId i \<notin> detached st)"
| "element_present st (TmcQtyId i) = (tmc_rows st i \<noteq> None \<and> TmcQtyId i \<notin> detached st)"
| "element_present st PostsContainerId = (PostsContainerId \<notin> detached st)"
| "element_present st TmcSelectionId = (TmcSelectionId \<notin> detached st)"
| "element_present st MarkupId = (MarkupId \<notin> detached st)"
| "element_present st ResultId = (ResultId \<notin> detached st)"

text \<open>
  \<open>document.getElementById(id).value\<close> for the inputs, and \<open>.checked\<close> for a checkbox:
  \<open>None\<close> when the element is \<open>null\<close>, where the script throws a TypeError.
\<close>

definition hours_value :: "nat \<Rightarrow> 'r page \<Rightarrow> string option" where
  "hours_value p st =
     (if element_present st (HoursId p) then map_option hours_input (getPostCard p st) else None)"

definition days_value :: "nat \<Rightarrow> 'r page \<Rightarrow> string option" where
  "days_value p st =
     (if element_present st (DaysId p) then map_option days_input (getPostCard p st) else None)"

definition position_value :: "nat \<times> nat \<Rightarrow> 'r page \<Rightarrow> string option" where
  "position_value sid st =
     (if element_present st (PositionId sid)
      then map_option position_input (getStaffGroup sid st) else None)"

definition count_value :: "nat \<times> nat \<Rightarrow> 'r page \<Rightarrow> string option" where
  "count_value sid st =
     (if element_present st (CountId sid)
      then map_option count_input (getStaffGroup sid st) else None)"

definition salary_value :: "nat \<times> nat \<Rightarrow> 'r page \<Rightarrow> string option" where
  "salary_value sid st =
     (if element_present st (SalaryId sid)
      then map_option salary_input (getStaffGroup sid st) else None)"

definition checkbox_checked :: "nat \<Rightarrow> 'r page \<Rightarrow> bool option" where
  "checkbox_checked i st =
     (if element_present st (TmcCheckId i) then map_option check_checked (tmc_rows st i) else None)"

definition qty_value :: "nat \<Rightarrow> 'r page \<Rightarrow> string option" where
  "qty_value i st =
     (if element_present st (TmcQtyId i) then map_option qty_input (tmc_rows st i) else None)"

definition markup_value :: "'r page \<Rightarrow> string option" where
  "markup_value st = (if element_present st MarkupId then Some (markup_input st) else None)"

subsection \<open>addStaff, addPost\<close>

text \<open>\<open>container.appendChild(staffGroup)\<close> on the container \<open>staff-P\<close> of the first card \<open>post-P\<close>.\<close>

fun append_group :: "nat \<Rightarrow> staff_group \<Rightarrow> post_card list \<Rightarrow> post_card list" where
  "append_group i g [] = []"
| "append_group i g (p # ps) =
     (if card_id p = i then p\<lparr>staff_groups := staff_groups p @ [g]\<rparr> # ps
      else p # append_group i g ps)"

text \<open>
  \<open>addStaff(postId)\<close>. The counter is bumped first; when no container \<open>staff-P\<close> exists,
  \<open>container.appendChild\<close> throws a TypeError with the counter already changed.
\<close>

definition addStaff :: "nat \<Rightarrow> 'r page \<Rightarrow> exn option \<times> 'r page" where
  "addStaff postId st =
     (let c0 = (case staffCounter st postId of None \<Rightarrow> 0 | Some n \<Rightarrow> n);
          c = c0 + 1;
          st1 = st\<lparr>staffCounter := (staffCounter st)(postId \<mapsto> c)\<rparr>;
          staffGroup = \<lparr>group_id = (postId, c), position_input = [],
                        count_input = ''1'', salary_input = []\<rparr>
      in if element_present st1 (StaffContainerId postId)
         then (None, st1\<lparr>post_cards := append_group postId staffGroup (post_cards st1)\<rparr>)
         else (Some TypeError, st1))"

text \<open>
  \<open>addPost()\<close>. The counter is bumped first; when \<open>posts-container\<close> is not there,
  \<open>container.appendChild\<close> throws a TypeError and the new card is never part of the
  document.
\<close>

definition addPost :: "'r page \<Rightarrow> exn option \<times> 'r page" where
  "addPost st =
     (let st1 = st\<lparr>postCounter := postCounter st + 1\<rparr>;
          postCard = \<lparr>card_id = postCounter st1, post_title = postCounter st1,
                      hours_input = ''12'', days_input = ''7'', staff_groups = []\<rparr>;
          st2 = st1\<lparr>post_cards := post_cards st1 @ [postCard]\<rparr>
      in if element_present st1 PostsContainerId
         then addStaff (postCounter st1) st2
         else (Some TypeError, st1))"

subsection \<open>removePost, renumberPosts, removeStaff\<close>

fun remove_first :: "('a \<Rightarrow> bool) \<Rightarrow> 'a list \<Rightarrow> 'a list" where
  "remove_first P [] = []"
| "remove_first P (x # xs) = (if P x then xs else x # remove_first P xs)"

text \<open>
  The \<open>forEach\<close> of \<open>renumberPosts\<close>, from a given index. Every card is created with
  its title, so the test \<open>if (titleElement)\<close> succeeds.
\<close>

fun renumber_from :: "nat \<Rightarrow> post_card list \<Rightarrow> post_card list" where
  "renumber_from index [] = []"
| "renumber_from index (postEl # rest) =
     postEl\<lparr>post_title := index + 1\<rparr> # renumber_from (index + 1) rest"

definition renumberPosts :: "'r page \<Rightarrow> 'r page" where
  "renumberPosts st = st\<lparr>post_cards := renumber_from 0 (post_cards st)\<rparr>"

definition removePost :: "nat \<Rightarrow> 'r page \<Rightarrow> 'r page" where
  "removePost postId st =
     (case getPostCard postId st of
        None \<Rightarrow> st
      | Some post \<Rightarrow>
          renumberPosts (st\<lparr>post_cards := remove_first (\<lambda>p. card_id p = postId) (post_cards st)\<rparr>))"

text \<open>Removing the first group with the id from the card that holds it.\<close>

fun remove_group :: "nat \<times> nat \<Rightarrow> post_card list \<Rightarrow> post_card list" where
  "remove_group sid [] = []"
| "remove_group sid (p # ps) =
     (if find (\<lambda>g. group_id g = sid) (staff_groups p) \<noteq> None
      then p\<lparr>staff_groups := remove_first (\<lambda>g. group_id g = sid) (staff_groups p)\<rparr> # ps
      else p # remove_group sid ps)"

text \<open>Removing the container \<open>staff-P\<close> of the first card \<open>post-P\<close>: its groups go with it.\<close>

fun remove_container :: "nat \<Rightarrow> post_card list \<Rightarrow> post_card list" where
  "remove_container i [] = []"
| "remove_container i (p # ps) =
     (if card_id p = i then p\<lparr>staff_groups := []\<rparr> # ps else p # remove_container i ps)"

text \<open>
  \<open>element.remove()\<close> on the element with the given id: the element leaves the document
  with everything inside it. Removing a card this way renumbers nothing.
\<close>

fun remove_element :: "element_id \<Rightarrow> 'r page \<Rightarrow> 'r page" where
  "remove_element (PostId p) st =
     st\<lparr>post_cards := remove_first (\<lambda>c. card_id c = p) (post_cards st)\<rparr>"
| "remove_element (GroupId sid) st = st\<lparr>post_cards := remove_group sid (post_cards st)\<rparr>"
| "remove_element (StaffContainerId p) st =
     st\<lparr>post_cards := remove_container p (post_cards st),
        detached := insert (StaffContainerId p) (detached st)\<rparr>"
| "remove_element PostsContainerId st =
     st\<lparr>post_cards := [], detached := insert PostsContainerId (detached st)\<rparr>"
| "remove_element TmcSelectionId st =
     st\<lparr>tmc_rows := Map.empty, detached := insert TmcSelectionId (detached st)\<rparr>"
| "remove_element input st = st\<lparr>detached := insert input (detached st)\<rparr>"

text \<open>
  \<open>removeStaff(staffId)\<close>: whatever element has the id is removed. The buttons of the
  page pass the id \<open>staff-P-N\<close> of a staff group; a call with the id of another element
  removes that element.
\<close>

definition removeStaff :: "element_id \<Rightarrow> 'r page \<Rightarrow> 'r page" where
  "removeStaff staffId st =
     (if element_present st staffId then remove_element staffId st else st)"

section \<open>calculate: building the request and submitting it\<close>

record staff_entry =
  position :: string
  count :: jsnum
  net_salary :: jsnum

record post_entry =
  post_number :: nat
  hours_per_day :: jsnum
  days_per_week :: jsnum
  staff :: "staff_entry list"

record tmc_entry =
  item_id :: nat
  quantity :: jsnum

record request =
  req_posts :: "post_entry list"
  req_tmc_items :: "tmc_entry list"
  req_markup_percent :: jsnum

text \<open>
  The inner \<open>forEach\<close> over the staff groups of a card, with the array \<open>staff\<close> as
  accumulator. The three inputs of a group are found by id; on a missing one \<open>.value\<close>
  throws a TypeError.
\<close>

fun collect_staff :: "'r page \<Rightarrow> staff_group list \<Rightarrow> staff_entry list \<Rightarrow> exn + staff_entry list" where
  "collect_staff st [] acc = Inr acc"
| "collect_staff st (staffEl # rest) acc =
     (case position_value (group_id staffEl) st of
        None \<Rightarrow> Inl TypeError
      | Some pos \<Rightarrow>
          (case count_value (group_id staffEl) st of
             None \<Rightarrow> Inl TypeError
           | Some count_text \<Rightarrow>
               (case salary_value (group_id staffEl) st of
                  None \<Rightarrow> Inl TypeError
                | Some salary_text \<Rightarrow>
                    (let cnt = parseInt count_text;
                         salary = parseFloat salary_text
                     in collect_staff st rest
                          (if pos \<noteq> [] \<and> truthy cnt \<and> truthy salary
                           then acc @ [\<lparr>position = pos, count = cnt, net_salary = salary\<rparr>]
                           else acc)))))"

text \<open>The outer \<open>forEach((postEl, index) => ...)\<close> over the cards, with the array \<open>posts\<close>.\<close>

fun collect_posts :: "'r page \<Rightarrow> nat \<Rightarrow> post_card list \<Rightarrow> post_entry list \<Rightarrow> exn + post_entry list" where
  "collect_posts st index [] acc = Inr acc"
| "collect_posts st index (postEl # rest) acc =
     (case hours_value (card_id postEl) st of
        None \<Rightarrow> Inl TypeError
      | Some hours_text \<Rightarrow>
          (case days_value (card_id postEl) st of
             None \<Rightarrow> Inl TypeError
           | Some days_text \<Rightarrow>
               (let hours = parseInt hours_text;
                    days = parseInt days_text
                in case collect_staff st (staff_groups postEl) [] of
                     Inl e \<Rightarrow> Inl e
                   | Inr staff_list \<Rightarrow>
                       collect_posts st (index + 1) rest
                         (if length staff_list > 0
                          then acc @ [\<lparr>post_number = index + 1, hours_per_day = hours,
                                       days_per_week = days, staff = staff_list\<rparr>]
                          else acc))))"

text \<open>
  The \<open>forEach\<close> over \<open>tmcItems\<close>, with the array \<open>tmc_items\<close>. A missing checkbox is
  skipped by the test \<open>checkbox && checkbox.checked\<close>; a missing quantity input of a
  checked row throws.
\<close>

fun collect_tmc :: "'r page \<Rightarrow> nat list \<Rightarrow> tmc_entry list \<Rightarrow> exn + tmc_entry list" where
  "collect_tmc st [] acc = Inr acc"
| "collect_tmc st (i # rest) acc =
     (case checkbox_checked i st of
        None \<Rightarrow> collect_tmc st rest acc
      | Some checked \<Rightarrow>
          if checked
          then (case qty_value i st of
                  None \<Rightarrow> Inl TypeError
                | Some qty_text \<Rightarrow>
                    collect_tmc st rest
                      (acc @ [\<lparr>item_id = i, quantity = js_or (parseInt qty_text) (Num 1)\<rparr>]))
          else collect_tmc st rest acc)"

text \<open>
  The answer of \<open>fetch('/api/calculate', ...)\<close>: the promise rejects (network error), or
  a response arrives with its \<open>ok\<close> flag and a body that \<open>response.json()\<close> parses or not.
\<close>

datatype 'r response = Rejected | Response bool "'r option"

text \<open>
  What the user and the network see of one run: the two alerts (the message asking for a
  post with staff, and the failure message built from the caught error), the console
  line, and the request sent.
\<close>

datatype effect = AlertNoPosts | AlertFailed exn | ConsoleError exn | Fetch request

text \<open>The \<open>catch\<close> block.\<close>

definition caught :: "exn \<Rightarrow> effect list" where
  "caught e = [ConsoleError e, AlertFailed e]"

text \<open>
  \<open>displayResult\<close>: the block is shown and its content replaced by the rendering of the
  result; without the block, \<open>resultDiv.classList\<close> throws before anything is changed.
  The type \<open>'r\<close> stands for results that have every field the rendering reads.
\<close>

definition displayResult :: "'r \<Rightarrow> 'r page \<Rightarrow> exn + 'r page" where
  "displayResult result st =
     (if element_present st ResultId
      then Inr (st\<lparr>result_hidden := False, result_shown := Some result\<rparr>)
      else Inl TypeError)"

text \<open>
  \<open>calculate()\<close>, with the server as a function of the request. It returns the page
  afterwards and the effects in order. The run is taken as one step: what the user does
  while the request is awaited belongs to the other handlers.
\<close>

definition calculate :: "(request \<Rightarrow> 'r response) \<Rightarrow> 'r page \<Rightarrow> 'r page \<times> effect list" where
  "calculate server st =
     (case collect_posts st 0 (post_cards st) [] of
        Inl e \<Rightarrow> (st, caught e)
      | Inr posts \<Rightarrow>
          if length posts = 0 then (st, [AlertNoPosts])
          else
            (case collect_tmc st (tmcItems st) [] of
               Inl e \<Rightarrow> (st, caught e)
             | Inr tmc_items \<Rightarrow>
                 (case markup_value st of
                    None \<Rightarrow> (st, caught TypeError)
                  | Some markup_text \<Rightarrow>
                      (let markup_percent = js_or (parseFloat markup_text) (Num 20);
                           req = \<lparr>req_posts = posts, req_tmc_items = tmc_items,
                                  req_markup_percent = markup_percent\<rparr>
                       in case server req of
                            Rejected \<Rightarrow> (st, Fetch req # caught FetchError)
                          | Response ok body \<Rightarrow>
                              if \<not> ok then (st, Fetch req # caught CalcError)
                              else
                                (case body of
                                   None \<Rightarrow> (st, Fetch req # caught JsonError)
                                 | Some result \<Rightarrow>
                                     (case displayResult result st of
                                        Inl e \<Rightarrow> (st, Fetch req # caught e)
                                      | Inr shown \<Rightarrow> (shown, [Fetch req])))))))"

section \<open>Sequences of user actions and the invariant of the ids\<close>

datatype form_op = AddPost | RemovePost nat

text \<open>The handlers run one after the other; an exception ends a handler, not the page.\<close>

fun run_ops :: "form_op list \<Rightarrow> 'r page \<Rightarrow> 'r page" where
  "run_ops [] st = st"
| "run_ops (AddPost # ops) st = run_ops ops (snd (addPost st))"
| "run_ops (RemovePost i # ops) st = run_ops ops (removePost i st)"

definition displayed_numbers :: "'r page \<Rightarrow> nat list" where
  "displayed_numbers st = map post_title (post_cards st)"

text \<open>
  Element ids are unique: every card id is at most \<open>postCounter\<close>, every group id
  \<open>(P, N)\<close> has \<open>N\<close> at most \<open>staffCounter[P]\<close>, and no id occurs twice. The invariant
  mentions no field value, so typing into the form cannot break it.
\<close>

definition well_formed :: "'r page \<Rightarrow> bool" where
  "well_formed st \<longleftrightarrow>
     distinct (map card_id (post_cards st)) \<and>
     distinct (map group_id (all_groups st)) \<and>
     list_all (\<lambda>p. card_id p \<le> postCounter st) (post_cards st) \<and>
     list_all (\<lambda>g. case staffCounter st (fst (group_id g)) of
                       None \<Rightarrow> False
                     | Some c \<Rightarrow> snd (group_id g) \<le> c) (all_groups st)"

text \<open>
  A page has the same ids as another when the counters and the ids of the cards and groups
  agree: typing into an input, ticking a checkbox, loading the equipment list and showing
  a result change a page in this way only.
\<close>

definition same_ids :: "'r page \<Rightarrow> 'r page \<Rightarrow> bool" where
  "same_ids st st' \<longleftrightarrow>
     postCounter st' = postCounter st \<and> staffCounter st' = staffCounter st \<and>
     map card_id (post_cards st') = map card_id (post_cards st) \<and>
     map group_id (all_groups st') = map group_id (all_groups st)"

text \<open>
  The pages that the handlers and the user can produce from the page as loaded. The
  handlers are taken with any argument, \<open>removeStaff\<close> with the id of any element, so this
  set is larger than what the buttons of the page allow.
\<close>

inductive reachable :: "'r page \<Rightarrow> bool" where
  loaded: "reachable (initial_page markup)"
| add_post: "reachable st \<Longrightarrow> reachable (snd (addPost st))"
| remove_post: "reachable st \<Longrightarrow> reachable (removePost postId st)"
| add_staff: "reachable st \<Longrightarrow> reachable (snd (addStaff postId st))"
| remove_staff: "reachable st \<Longrightarrow> reachable (removeStaff staffId st)"
| other: "reachable st \<Longrightarrow> same_ids st st' \<Longrightarrow> reachable st'"

section \<open>Closed forms of the loops of calculate\<close>

text \<open>The test \<open>position && count && salary\<close> on the inputs of a group.\<close>

definition group_valid :: "staff_group \<Rightarrow> bool" where
  "group_valid g \<longleftrightarrow>
     position_input g \<noteq> [] \<and> truthy (parseInt (count_input g)) \<and>
     truthy (parseFloat (salary_input g))"

definition group_entry :: "staff_group \<Rightarrow> staff_entry" where
  "group_entry g =
     \<lparr>position = position_input g, count = parseInt (count_input g),
      net_salary = parseFloat (salary_input g)\<rparr>"

definition card_staff :: "post_card \<Rightarrow> staff_entry list" where
  "card_staff p = map group_entry (filter group_valid (staff_groups p))"

definition card_entry :: "nat \<Rightarrow> post_card \<Rightarrow> post_entry" where
  "card_entry index p =
     \<lparr>post_number = index + 1, hours_per_day = parseInt (hours_input p),
      days_per_week = parseInt (days_input p), staff = card_staff p\<rparr>"

text \<open>The cards from a given index on that have a valid group, each with its index.\<close>

fun entries_from :: "nat \<Rightarrow> post_card list \<Rightarrow> post_entry list" where
  "entries_from index [] = []"
| "entries_from index (p # ps) =
     (if card_staff p = [] then entries_from (index + 1) ps
      else card_entry index p # entries_from (index + 1) ps)"

definition row_checked :: "'r page \<Rightarrow> nat \<Rightarrow> bool" where
  "row_checked st i = (case checkbox_checked i st of None \<Rightarrow> False | Some checked \<Rightarrow> checked)"

definition row_entry :: "'r page \<Rightarrow> nat \<Rightarrow> tmc_entry" where
  "row_entry st i =
     \<lparr>item_id = i,
      quantity = (case tmc_rows st i of
                    None \<Rightarrow> Num 1
                  | Some row \<Rightarrow>
                      (case parseInt (qty_input row) of
                         Num q \<Rightarrow> if q = 0 then Num 1 else Num q
                       | NaN \<Rightarrow> Num 1
                       | other \<Rightarrow> other))\<rparr>"

text \<open>The requests a run has sent.\<close>

fun sent_requests :: "effect list \<Rightarrow> request list" where
  "sent_requests [] = []"
| "sent_requests (Fetch req # es) = req # sent_requests es"
| "sent_requests (e # es) = sent_requests es"

fun failed :: "'r response \<Rightarrow> bool" where
  "failed Rejected = True"
| "failed (Response ok body) = (\<not> ok)"

text \<open>The request that a run builds from the page, by the closed forms.\<close>

definition built_request :: "'r page \<Rightarrow> request" where
  "built_request st =
     \<lparr>req_posts = entries_from 0 (post_cards st),
      req_tmc_items = map (row_entry st) (filter (row_checked st) (tmcItems st)),
      req_markup_percent = js_or (parseFloat (markup_input st)) (Num 20)\<rparr>"

section \<open>The wording of the specification, for comparison\<close>

text \<open>
  A staff entry is valid in the words of the specification: a non-empty position, a
  positive count and a positive salary.
\<close>

fun positive :: "jsnum \<Rightarrow> bool" where
  "positive (Num r) = (0 < r)"
| "positive PosInfinity = True"
| "positive other = False"

definition spec_valid_entry :: "staff_entry \<Rightarrow> bool" where
  "spec_valid_entry e \<longleftrightarrow> position e \<noteq> [] \<and> positive (count e) \<and> positive (net_salary e)"

fun non_negative :: "jsnum \<Rightarrow> bool" where
  "non_negative (Num r) = (0 \<le> r)"
| "non_negative PosInfinity = True"
| "non_negative other = False"

text \<open>An identifier that matches an existing post or staff group.\<close>

fun matches_post_or_group :: "'r page \<Rightarrow> element_id \<Rightarrow> bool" where
  "matches_post_or_group st (PostId p) = (getPostCard p st \<noteq> None)"
| "matches_post_or_group st (GroupId sid) = (getStaffGroup sid st \<noteq> None)"
| "matches_post_or_group st other = False"

text \<open>Post numbers that are contiguous from 1.\<close>

definition contiguous_from_one :: "nat list \<Rightarrow> bool" where
  "contiguous_from_one ns \<longleftrightarrow> ns = [1 ..< length ns + 1]"

section \<open>The pricing calculator\<close>

text \<open>
  Modelled from the spec: the pricing calculator runs on the server behind
  \<open>/api/calculate\<close> and its code is not part of the script. The definitions below follow
  section 4.1 of the specification: the cost of a staff group is \<open>count \<times> net_salary\<close>,
  the labour cost of a post is the sum over its groups, a selection is resolved in the
  registry by \<open>item_id\<close> (NotFound when absent) and costs the item's monthly cost times
  the selected quantity, and the summary adds the markup. The monthly hours and the
  hourly rate, whose constants the specification leaves open, are left out.
\<close>

record equipment_item =
  eq_id :: nat
  eq_price :: rat
  eq_quantity :: nat
  eq_amortization_months :: nat

record calc_staff_group =
  sg_position :: string
  sg_count :: nat
  sg_net_salary :: rat

record calc_post =
  cp_post_number :: nat
  cp_hours_per_day :: nat
  cp_days_per_week :: nat
  cp_staff :: "calc_staff_group list"

record equipment_selection =
  sel_item_id :: nat
  sel_quantity :: nat

record calc_request =
  cr_posts :: "calc_post list"
  cr_tmc_items :: "equipment_selection list"
  cr_markup_percent :: rat

record calc_summary =
  total_labor_cost :: rat
  total_tmc_cost :: rat
  subtotal :: rat
  markup_percent :: rat
  markup_amount :: rat
  final_price :: rat
  total_posts :: nat

datatype calc_error = NotFound nat

text \<open>
  Modelled from the spec: the monthly cost of an item of the registry, which is server
  data: \<open>price \<times> quantity / amortization_months\<close>.
\<close>

definition monthly_cost :: "equipment_item \<Rightarrow> rat" where
  "monthly_cost item =
     eq_price item * of_nat (eq_quantity item) / of_nat (eq_amortization_months item)"

text \<open>
  Modelled from the spec: the cost of a staff group in the server's calculator,
  \<open>count \<times> net_salary\<close>, not scaled by time.
\<close>

definition total_cost_group :: "calc_staff_group \<Rightarrow> rat" where
  "total_cost_group g = of_nat (sg_count g) * sg_net_salary g"

text \<open>
  Modelled from the spec: the labour cost of a post in the server's calculator, the sum
  over its staff groups.
\<close>

definition post_labor_cost :: "calc_post \<Rightarrow> rat" where
  "post_labor_cost p = sum_list (map total_cost_group (cp_staff p))"

text \<open>
  Modelled from the spec: the server's lookup of each selected item in the registry, with
  NotFound for an id that is absent, and the monthly cost of each selection.
\<close>

fun resolve_selections :: "equipment_item list \<Rightarrow> equipment_selection list \<Rightarrow> calc_error + rat list" where
  "resolve_selections registry [] = Inr []"
| "resolve_selections registry (sel # sels) =
     (case find (\<lambda>item. eq_id item = sel_item_id sel) registry of
        None \<Rightarrow> Inl (NotFound (sel_item_id sel))
      | Some item \<Rightarrow>
          (case resolve_selections registry sels of
             Inl e \<Rightarrow> Inl e
           | Inr costs \<Rightarrow> Inr (monthly_cost item * of_nat (sel_quantity sel) # costs)))"

text \<open>
  Modelled from the spec: the server's pricing calculator, the aggregate computation of
  section 4.1: the totals, the subtotal, the markup amount and the final price.
\<close>

definition pricing_calculator :: "equipment_item list \<Rightarrow> calc_request \<Rightarrow> calc_error + calc_summary" where
  "pricing_calculator registry rq =
     (case resolve_selections registry (cr_tmc_items rq) of
        Inl e \<Rightarrow> Inl e
      | Inr costs \<Rightarrow>
          (let labor = sum_list (map post_labor_cost (cr_posts rq));
               tmc = sum_list costs;
               sub = labor + tmc;
               markup = sub * cr_markup_percent rq / 100
           in Inr \<lparr>total_labor_cost = labor, total_tmc_cost = tmc, subtotal = sub,
                    markup_percent = cr_markup_percent rq, markup_amount = markup,
                    final_price = sub + markup, total_posts = length (cr_posts rq)\<rparr>))"

section \<open>Concrete pages and servers\<close>

text \<open>
  The user typing into the three inputs of the staff group with a given id. Together with
  the handlers it builds the concrete pages used below.
\<close>

definition type_staff :: "nat \<times> nat \<Rightarrow> string \<Rightarrow> string \<Rightarrow> string \<Rightarrow> 'r page \<Rightarrow> 'r page" where
  "type_staff sid pos cnt sal st =
     st\<lparr>post_cards :=
          map (\<lambda>p. p\<lparr>staff_groups :=
                   map (\<lambda>g. if group_id g = sid
                             then g\<lparr>position_input := pos, count_input := cnt, salary_input := sal\<rparr>
                             else g) (staff_groups p)\<rparr>) (post_cards st)\<rparr>"

text \<open>A server that cannot be reached, and one that answers with a status outside 2xx.\<close>

definition server_down :: "request \<Rightarrow> 'r response" where
  "server_down req = Rejected"

definition server_refuses :: "request \<Rightarrow> 'r response" where
  "server_refuses req = Response False None"

text \<open>
  The page once loaded (the handler of \<open>DOMContentLoaded\<close> has added the first post); the
  same after a second post is added and only its staff group is filled in; the loaded
  page with a negative count typed in; and with a valid group.
\<close>

definition page_loaded :: "unit page" where
  "page_loaded = snd (addPost (initial_page ''20''))"

definition page_second_filled :: "unit page" where
  "page_second_filled = type_staff (2, 1) ''Guard'' ''1'' ''150000'' (snd (addPost page_loaded))"

definition page_negative_count :: "unit page" where
  "page_negative_count = type_staff (1, 1) ''Guard'' ''-3'' ''150000'' page_loaded"

definition page_guard :: "unit page" where
  "page_guard = type_staff (1, 1) ''Guard'' ''2'' ''150000'' page_loaded"

text \<open>
  A page with two posts, the first with a second staff group added; and a page on which
  four equipment items have been fetched and three of them are checked, with the
  quantities 3, 0 and nothing typed in.
\<close>

definition page_two_groups :: "unit page" where
  "page_two_groups = snd (addStaff 1 (snd (addPost page_guard)))"

text \<open>
  The page with a valid group after a call \<open>removeStaff('hours-1')\<close>, which the buttons
  never make.
\<close>

definition page_hours_removed :: "unit page" where
  "page_hours_removed = removeStaff (HoursId 1) page_guard"

definition page_equipment :: "unit page" where
  "page_equipment =
     page_guard\<lparr>tmcItems := [7, 9, 4, 5],
       tmc_rows := [7 \<mapsto> \<lparr>check_checked = True, qty_input = ''3''\<rparr>,
                    9 \<mapsto> \<lparr>check_checked = False, qty_input = ''5''\<rparr>,
                    4 \<mapsto> \<lparr>check_checked = True, qty_input = ''0''\<rparr>,
                    5 \<mapsto> \<lparr>check_checked = True, qty_input = []\<rparr>]\<rparr>"

text \<open>
  Modelled from the spec: the example request of section 8 of the specification, one post
  of 12 hours on 7 days with two guards at 150000, no equipment, a markup of 20 percent.
\<close>

definition example_request :: calc_request where
  "example_request =
     \<lparr>cr_posts = [\<lparr>cp_post_number = 1, cp_hours_per_day = 12, cp_days_per_week = 7,
                    cp_staff = [\<lparr>sg_position = ''Guard'', sg_count = 2,
                                 sg_net_salary = 150000\<rparr>]\<rparr>],
      cr_tmc_items = [], cr_markup_percent = 20\<rparr>"

text \<open>
  Modelled from the spec: a registry with one item of price 120000 amortised over 12
  months, and the example request with two units of it selected.
\<close>

definition example_registry :: "equipment_item list" where
  "example_registry =
     [\<lparr>eq_id = 3, eq_price = 120000, eq_quantity = 1, eq_amortization_months = 12\<rparr>]"

definition example_request_equipment :: calc_request where
  "example_request_equipment =
     example_request\<lparr>cr_tmc_items := [\<lparr>sel_item_id = 3, sel_quantity = 2\<rparr>]\<rparr>"

text \<open>The definitions that evaluate the parsing built-ins, and those of the concrete pages.\<close>

lemmas parse_defs = parseInt_def parseFloat_def dec_digit_def hex_digit_def digits_value_def
  is_space_def exponent_part_def scale10_def

lemmas page_defs = page_loaded_def page_second_filled_def page_negative_count_def page_guard_def
  type_staff_def addPost_def addStaff_def initial_page_def getPostCard_def Let_def

lemmas value_defs = hours_value_def days_value_def position_value_def count_value_def
  salary_value_def checkbox_checked_def qty_value_def markup_value_def

section \<open>Lookups by id and the loops of calculate\<close>

lemma find_self:
  "distinct (map f xs) \<Longrightarrow> x \<in> set xs \<Longrightarrow> find (\<lambda>y. f y = f x) xs = Some x"
  by (induction xs) auto

lemma getPostCard_self:
  "well_formed st \<Longrightarrow> p \<in> set (post_cards st) \<Longrightarrow> getPostCard (card_id p) st = Some p"
  by (simp add: well_formed_def getPostCard_def find_self)

lemma getStaffGroup_self:
  "well_formed st \<Longrightarrow> g \<in> set (all_groups st) \<Longrightarrow> getStaffGroup (group_id g) st = Some g"
  by (simp add: well_formed_def getStaffGroup_def find_self)

lemma card_inputs_found:
  assumes "well_formed st" "p \<in> set (post_cards st)" "detached st = {}"
  shows "hours_value (card_id p) st = Some (hours_input p)"
    and "days_value (card_id p) st = Some (days_input p)"
  using assms(3) getPostCard_self [OF assms(1,2)]
  by (simp_all add: hours_value_def days_value_def)

text \<open>An input that is found holds the content of the input of its card or group.\<close>

lemma card_inputs_read:
  assumes "well_formed st" "p \<in> set (post_cards st)"
  shows "hours_value (card_id p) st = Some v \<Longrightarrow> v = hours_input p"
    and "days_value (card_id p) st = Some w \<Longrightarrow> w = days_input p"
  using getPostCard_self [OF assms]
  by (simp_all add: hours_value_def days_value_def split: if_splits)

lemma group_inputs_read:
  assumes "getStaffGroup (group_id g) st = Some g"
  shows "position_value (group_id g) st = Some u \<Longrightarrow> u = position_input g"
    and "count_value (group_id g) st = Some v \<Longrightarrow> v = count_input g"
    and "salary_value (group_id g) st = Some w \<Longrightarrow> w = salary_input g"
  using assms
  by (simp_all add: position_value_def count_value_def salary_value_def split: if_splits)

lemma group_inputs_found:
  assumes "getStaffGroup (group_id g) st = Some g" "detached st = {}"
  shows "position_value (group_id g) st = Some (position_input g)"
    and "count_value (group_id g) st = Some (count_input g)"
    and "salary_value (group_id g) st = Some (salary_input g)"
  using assms by (simp_all add: position_value_def count_value_def salary_value_def)

lemma collect_staff_closed:
  "\<forall>g \<in> set gs. getStaffGroup (group_id g) st = Some g \<Longrightarrow> detached st = {} \<Longrightarrow>
   collect_staff st gs acc = Inr (acc @ map group_entry (filter group_valid gs))"
proof (induction gs arbitrary: acc)
  case Nil
  then show ?case by simp
next
  case (Cons g gs)
  then show ?case
    by (simp add: group_inputs_found group_valid_def group_entry_def Let_def)
qed

lemma card_groups_in_all:
  "p \<in> set (post_cards st) \<Longrightarrow> g \<in> set (staff_groups p) \<Longrightarrow> g \<in> set (all_groups st)"
  by (auto simp: all_groups_def)

lemma collect_staff_card:
  assumes "well_formed st" "p \<in> set (post_cards st)" "detached st = {}"
  shows "collect_staff st (staff_groups p) [] = Inr (card_staff p)"
proof -
  have "\<forall>g \<in> set (staff_groups p). getStaffGroup (group_id g) st = Some g"
    using assms by (blast intro: getStaffGroup_self card_groups_in_all)
  with assms(3) show ?thesis
    by (simp add: collect_staff_closed card_staff_def)
qed

text \<open>What the loop over the staff groups returns, when it returns; it throws a TypeError only.\<close>

lemma collect_staff_result:
  "\<forall>g \<in> set gs. getStaffGroup (group_id g) st = Some g \<Longrightarrow>
   collect_staff st gs acc = Inr r \<Longrightarrow>
   r = acc @ map group_entry (filter group_valid gs)"
proof (induction gs arbitrary: acc)
  case Nil
  then show ?case by simp
next
  case (Cons g gs)
  from Cons.prems(1) have found: "getStaffGroup (group_id g) st = Some g"
    and others: "\<forall>h \<in> set gs. getStaffGroup (group_id h) st = Some h"
    by simp_all
  from Cons.prems(2) obtain u v w
    where u: "position_value (group_id g) st = Some u"
      and v: "count_value (group_id g) st = Some v"
      and w: "salary_value (group_id g) st = Some w"
    by (auto split: option.splits)
  from group_inputs_read [OF found] u v w
  have read: "u = position_input g" "v = count_input g" "w = salary_input g"
    by simp_all
  from Cons.prems(2) u v w read
  have step: "collect_staff st gs (if group_valid g then acc @ [group_entry g] else acc) = Inr r"
    by (auto simp: group_valid_def group_entry_def Let_def split: if_splits)
  show ?case
  proof (cases "group_valid g")
    case True
    with step have "collect_staff st gs (acc @ [group_entry g]) = Inr r"
      by simp
    from Cons.IH [OF others this] True show ?thesis by simp
  next
    case False
    with step have "collect_staff st gs acc = Inr r"
      by simp
    from Cons.IH [OF others this] False show ?thesis by simp
  qed
qed

lemma collect_staff_error: "collect_staff st gs acc = Inl e \<Longrightarrow> e = TypeError"
proof (induction gs arbitrary: acc)
  case Nil
  then show ?case by simp
next
  case (Cons g gs)
  then show ?case
    by (auto simp: Let_def split: option.splits if_splits)
qed

lemma collect_staff_card_result:
  assumes "well_formed st" "p \<in> set (post_cards st)"
    and "collect_staff st (staff_groups p) [] = Inr r"
  shows "r = card_staff p"
proof -
  have "\<forall>g \<in> set (staff_groups p). getStaffGroup (group_id g) st = Some g"
    using assms by (blast intro: getStaffGroup_self card_groups_in_all)
  from collect_staff_result [OF this assms(3)] show ?thesis
    by (simp add: card_staff_def)
qed

lemma collect_posts_closed:
  "well_formed st \<Longrightarrow> detached st = {} \<Longrightarrow> set ps \<subseteq> set (post_cards st) \<Longrightarrow>
   collect_posts st index ps acc = Inr (acc @ entries_from index ps)"
proof (induction ps arbitrary: index acc)
  case Nil
  then show ?case by simp
next
  case (Cons p ps)
  then have p: "p \<in> set (post_cards st)" and ps: "set ps \<subseteq> set (post_cards st)"
    by auto
  show ?case
    using Cons.prems(1,2) p Cons.IH [OF Cons.prems(1,2) ps]
    by (simp add: card_inputs_found collect_staff_card card_entry_def Let_def)
qed

text \<open>What the loop over the cards returns, when it returns; it throws a TypeError only.\<close>

lemma collect_posts_result:
  "well_formed st \<Longrightarrow> set ps \<subseteq> set (post_cards st) \<Longrightarrow>
   collect_posts st index ps acc = Inr r \<Longrightarrow> r = acc @ entries_from index ps"
proof (induction ps arbitrary: index acc)
  case Nil
  then show ?case by simp
next
  case (Cons p ps)
  then have p: "p \<in> set (post_cards st)" and ps: "set ps \<subseteq> set (post_cards st)"
    by auto
  from Cons.prems(3) obtain v w staff_list
    where v: "hours_value (card_id p) st = Some v"
      and w: "days_value (card_id p) st = Some w"
      and staff_list: "collect_staff st (staff_groups p) [] = Inr staff_list"
    by (auto simp: Let_def split: option.splits sum.splits)
  from card_inputs_read [OF Cons.prems(1) p] v w
  have read: "v = hours_input p" "w = days_input p"
    by simp_all
  from collect_staff_card_result [OF Cons.prems(1) p staff_list]
  have staff_eq: "staff_list = card_staff p" .
  from Cons.prems(3) v w staff_list staff_eq read
  have step: "collect_posts st (index + 1) ps
      (if card_staff p = [] then acc else acc @ [card_entry index p]) = Inr r"
    by (auto simp: Let_def card_entry_def split: if_splits)
  show ?case
  proof (cases "card_staff p = []")
    case True
    with step have "collect_posts st (index + 1) ps acc = Inr r"
      by simp
    from Cons.IH [OF Cons.prems(1) ps this] True show ?thesis by simp
  next
    case False
    with step have "collect_posts st (index + 1) ps (acc @ [card_entry index p]) = Inr r"
      by simp
    from Cons.IH [OF Cons.prems(1) ps this] False show ?thesis by simp
  qed
qed

lemma collect_posts_error: "collect_posts st index ps acc = Inl e \<Longrightarrow> e = TypeError"
proof (induction ps arbitrary: index acc)
  case Nil
  then show ?case by simp
next
  case (Cons p ps)
  then show ?case
    by (auto simp: Let_def dest: collect_staff_error split: option.splits sum.splits if_splits)
qed

text \<open>What the loop over the equipment returns, when it returns.\<close>

lemma collect_tmc_result:
  "collect_tmc st items acc = Inr r \<Longrightarrow>
   r = acc @ map (row_entry st) (filter (row_checked st) items)"
proof (induction items arbitrary: acc)
  case Nil
  then show ?case by simp
next
  case (Cons i items)
  show ?case
  proof (cases "checkbox_checked i st")
    case None
    with Cons show ?thesis by (simp add: row_checked_def)
  next
    case (Some checked)
    show ?thesis
    proof (cases checked)
      case False
      with Some Cons show ?thesis by (simp add: row_checked_def)
    next
      case True
      with Some Cons.prems obtain qty_text where qty: "qty_value i st = Some qty_text"
        and rest: "collect_tmc st items
          (acc @ [\<lparr>item_id = i, quantity = js_or (parseInt qty_text) (Num 1)\<rparr>]) = Inr r"
        by (auto split: option.splits)
      from qty obtain row where row: "tmc_rows st i = Some row" "qty_input row = qty_text"
        by (auto simp: qty_value_def split: if_splits)
      have entry: "row_entry st i = \<lparr>item_id = i, quantity = js_or (parseInt qty_text) (Num 1)\<rparr>"
        using row by (cases "parseInt qty_text") (simp_all add: row_entry_def js_or_def)
      from Cons.IH [OF rest] Some True entry show ?thesis
        by (simp add: row_checked_def)
    qed
  qed
qed

lemma collect_tmc_total:
  "detached st = {} \<Longrightarrow> \<exists>r. collect_tmc st items acc = Inr r"
proof (induction items arbitrary: acc)
  case Nil
  then show ?case by simp
next
  case (Cons i items)
  then show ?case
    by (cases "tmc_rows st i") (simp_all add: checkbox_checked_def qty_value_def)
qed

lemma collect_tmc_closed:
  "detached st = {} \<Longrightarrow>
   collect_tmc st items [] = Inr (map (row_entry st) (filter (row_checked st) items))"
  using collect_tmc_total [of st items "[]"] collect_tmc_result [of st items "[]"]
  by auto

lemma calculate_closed:
  assumes "well_formed st" "detached st = {}"
  shows "calculate server st =
    (if entries_from 0 (post_cards st) = [] then (st, [AlertNoPosts])
     else (case server (built_request st) of
             Rejected \<Rightarrow> (st, Fetch (built_request st) # caught FetchError)
           | Response ok body \<Rightarrow>
               if \<not> ok then (st, Fetch (built_request st) # caught CalcError)
               else (case body of
                       None \<Rightarrow> (st, Fetch (built_request st) # caught JsonError)
                     | Some result \<Rightarrow>
                         (st\<lparr>result_hidden := False, result_shown := Some result\<rparr>,
                          [Fetch (built_request st)]))))"
proof -
  have "collect_posts st 0 (post_cards st) [] = Inr (entries_from 0 (post_cards st))"
    using assms by (simp add: collect_posts_closed)
  then show ?thesis
    using assms(2)
    by (simp add: calculate_def collect_tmc_closed built_request_def markup_value_def
        displayResult_def Let_def split: response.split option.split)
qed

lemma sent_requests_calculate:
  assumes "well_formed st" "detached st = {}"
  shows "sent_requests (snd (calculate server st)) =
    (if entries_from 0 (post_cards st) = [] then [] else [built_request st])"
  by (simp add: calculate_closed [OF assms] caught_def split: response.split option.split)

lemma post_numbers_entries_from:
  "map post_number (entries_from index ps) =
     map (\<lambda>k. index + k + 1) (filter (\<lambda>k. card_staff (ps ! k) \<noteq> []) [0 ..< length ps])"
proof (induction ps arbitrary: index)
  case Nil
  then show ?case by simp
next
  case (Cons p ps)
  have shift: "[0 ..< length (p # ps)] = 0 # map Suc [0 ..< length ps]"
    by (simp add: upt_conv_Cons map_Suc_upt del: upt_Suc)
  show ?case
    unfolding shift
    by (simp add: Cons.IH [of "Suc index"] card_entry_def filter_map comp_def del: upt_Suc)
qed

lemma entries_from_all:
  "\<forall>p \<in> set ps. card_staff p \<noteq> [] \<Longrightarrow>
   map post_number (entries_from index ps) = [index + 1 ..< index + length ps + 1]"
proof (induction ps arbitrary: index)
  case Nil
  then show ?case by simp
next
  case (Cons p ps)
  then have "map post_number (entries_from (index + 1) ps) = [index + 1 + 1 ..< index + 1 + length ps + 1]"
    by simp
  with Cons.prems show ?case
    by (simp add: card_entry_def upt_conv_Cons del: upt_Suc)
qed

lemma entries_from_increasing:
  "sorted_wrt (<) (map post_number (entries_from index ps)) \<and>
   (\<forall>e \<in> set (entries_from index ps). index < post_number e \<and> post_number e \<le> index + length ps)"
proof (induction ps arbitrary: index)
  case Nil
  then show ?case by simp
next
  case (Cons p ps)
  from Cons.IH [of "index + 1"] show ?case
    by (auto simp: card_entry_def)
qed

lemma sent_request_shape:
  assumes "req \<in> set (sent_requests (snd (calculate server st)))"
  shows "\<exists>posts tmc. collect_posts st 0 (post_cards st) [] = Inr posts \<and> posts \<noteq> [] \<and>
     collect_tmc st (tmcItems st) [] = Inr tmc \<and> markup_value st = Some (markup_input st) \<and>
     req = \<lparr>req_posts = posts, req_tmc_items = tmc,
            req_markup_percent = js_or (parseFloat (markup_input st)) (Num 20)\<rparr> \<and>
     sent_requests (snd (calculate server st)) = [req]"
proof (cases "collect_posts st 0 (post_cards st) []")
  case (Inl e)
  with assms show ?thesis by (simp add: calculate_def caught_def)
next
  case (Inr posts)
  note posts = this
  show ?thesis
  proof (cases "posts = []")
    case True
    with posts assms show ?thesis by (simp add: calculate_def)
  next
    case False
    note nonempty = this
    show ?thesis
    proof (cases "collect_tmc st (tmcItems st) []")
      case (Inl e)
      with posts nonempty assms show ?thesis by (simp add: calculate_def caught_def)
    next
      case (Inr tmc)
      note tmc = this
      show ?thesis
      proof (cases "markup_value st")
        case None
        with posts nonempty tmc assms show ?thesis by (simp add: calculate_def caught_def)
      next
        case (Some markup_text)
        then have m: "markup_text = markup_input st"
          by (simp add: markup_value_def split: if_splits)
        with Some posts nonempty tmc assms show ?thesis
          by (simp add: calculate_def caught_def Let_def
              split: response.splits option.splits if_splits sum.splits)
      qed
    qed
  qed
qed

text \<open>On a page with unique ids, a request that is sent is the one the closed forms give.\<close>

lemma sent_request_is_built:
  assumes "well_formed st"
    and "req \<in> set (sent_requests (snd (calculate server st)))"
  shows "req = built_request st" and "entries_from 0 (post_cards st) \<noteq> []"
proof -
  from sent_request_shape [OF assms(2)] obtain posts tmc where
    posts: "collect_posts st 0 (post_cards st) [] = Inr posts" "posts \<noteq> []"
    and tmc: "collect_tmc st (tmcItems st) [] = Inr tmc"
    and req: "req = \<lparr>req_posts = posts, req_tmc_items = tmc,
            req_markup_percent = js_or (parseFloat (markup_input st)) (Num 20)\<rparr>"
    by blast
  from collect_posts_result [OF assms(1) subset_refl posts(1)]
  have p: "posts = entries_from 0 (post_cards st)" by simp
  from collect_tmc_result [OF tmc]
  have t: "tmc = map (row_entry st) (filter (row_checked st) (tmcItems st))" by simp
  from req p t show "req = built_request st"
    by (simp add: built_request_def)
  from posts(2) p show "entries_from 0 (post_cards st) \<noteq> []"
    by simp
qed

section \<open>The invariant is kept by every handler\<close>

lemma well_formed_initial: "well_formed (initial_page markup)"
  by (simp add: well_formed_def initial_page_def all_groups_def)

lemma card_id_append_group: "map card_id (append_group i g ps) = map card_id ps"
  by (induction ps) auto

lemma set_groups_append_group:
  "set (concat (map staff_groups (append_group i g ps))) \<subseteq>
   insert g (set (concat (map staff_groups ps)))"
  by (induction ps) auto

lemma distinct_groups_append_group:
  "distinct (map group_id (concat (map staff_groups ps))) \<Longrightarrow>
   group_id g \<notin> group_id ` set (concat (map staff_groups ps)) \<Longrightarrow>
   distinct (map group_id (concat (map staff_groups (append_group i g ps))))"
proof (induction ps)
  case Nil
  then show ?case by simp
next
  case (Cons p ps)
  show ?case
  proof (cases "card_id p = i")
    case True
    with Cons.prems show ?thesis by auto
  next
    case False
    have sub: "set (concat (map staff_groups (append_group i g ps))) \<subseteq>
      insert g (set (concat (map staff_groups ps)))"
      by (rule set_groups_append_group)
    from Cons.prems have d: "distinct (map group_id (concat (map staff_groups ps)))"
      and n: "group_id g \<notin> group_id ` set (concat (map staff_groups ps))"
      by auto
    from Cons.prems have dp: "distinct (map group_id (staff_groups p))"
      and disj: "group_id ` set (staff_groups p) \<inter> group_id ` set (concat (map staff_groups ps)) = {}"
      and np: "group_id g \<notin> group_id ` set (staff_groups p)"
      by auto
    have "group_id ` set (staff_groups p) \<inter>
      group_id ` set (concat (map staff_groups (append_group i g ps))) = {}"
      using sub disj np by (auto simp del: set_concat) blast
    with False dp Cons.IH [OF d n] show ?thesis by simp
  qed
qed

lemma well_formed_addStaff:
  assumes "well_formed st"
  shows "well_formed (snd (addStaff i st))"
proof -
  define c0 where "c0 = (case staffCounter st i of None \<Rightarrow> 0 | Some n \<Rightarrow> n)"
  define g where "g = \<lparr>group_id = (i, c0 + 1), position_input = [],
    count_input = ''1'', salary_input = []\<rparr>"
  define st1 where "st1 = st\<lparr>staffCounter := (staffCounter st)(i \<mapsto> c0 + 1)\<rparr>"
  have bound: "\<forall>h \<in> set (all_groups st). fst (group_id h) = i \<longrightarrow> snd (group_id h) \<le> c0"
    using assms by (auto simp: well_formed_def list_all_iff c0_def split: option.splits)
  have fresh: "group_id g \<notin> group_id ` set (concat (map staff_groups (post_cards st)))"
  proof
    assume "group_id g \<in> group_id ` set (concat (map staff_groups (post_cards st)))"
    then obtain h where h: "h \<in> set (all_groups st)" and eq: "group_id h = (i, c0 + 1)"
      unfolding all_groups_def g_def by force
    from bound h eq have "c0 + 1 \<le> c0" by fastforce
    then show False by simp
  qed
  have counters: "list_all (\<lambda>h. case ((staffCounter st)(i \<mapsto> c0 + 1)) (fst (group_id h)) of
      None \<Rightarrow> False | Some c \<Rightarrow> snd (group_id h) \<le> c) (all_groups st)"
    using assms bound by (auto simp: well_formed_def list_all_iff split: option.splits)
  have thrown: "well_formed st1"
    using assms counters by (simp add: st1_def well_formed_def all_groups_def)
  have d: "distinct (map group_id (concat (map staff_groups (append_group i g (post_cards st)))))"
    using assms fresh by (intro distinct_groups_append_group) (simp_all add: well_formed_def all_groups_def)
  have sub: "set (concat (map staff_groups (append_group i g (post_cards st))))
    \<subseteq> insert g (set (all_groups st))"
    unfolding all_groups_def by (rule set_groups_append_group)
  have c: "list_all (\<lambda>h. case ((staffCounter st)(i \<mapsto> c0 + 1)) (fst (group_id h)) of
    None \<Rightarrow> False | Some c \<Rightarrow> snd (group_id h) \<le> c)
    (concat (map staff_groups (append_group i g (post_cards st))))"
    unfolding list_all_iff
  proof
    fix h assume "h \<in> set (concat (map staff_groups (append_group i g (post_cards st))))"
    with sub have "h = g \<or> h \<in> set (all_groups st)" by blast
    then show "case ((staffCounter st)(i \<mapsto> c0 + 1)) (fst (group_id h)) of
      None \<Rightarrow> False | Some c \<Rightarrow> snd (group_id h) \<le> c"
      using counters by (auto simp: g_def list_all_iff)
  qed
  have b: "list_all (\<lambda>p. card_id p \<le> postCounter st) (append_group i g (post_cards st))"
    using assms card_id_append_group [of i g "post_cards st"]
    by (simp add: well_formed_def list_all_iff) (metis (no_types, lifting) image_iff list.set_map)
  have appended: "well_formed (st1\<lparr>post_cards := append_group i g (post_cards st)\<rparr>)"
    using assms d c b
    by (simp add: st1_def well_formed_def all_groups_def card_id_append_group)
  have "snd (addStaff i st) = st1 \<or>
      snd (addStaff i st) = st1\<lparr>post_cards := append_group i g (post_cards st)\<rparr>"
    by (simp add: addStaff_def Let_def st1_def c0_def g_def)
  with thrown appended show ?thesis
    by auto
qed

lemma well_formed_addPost:
  assumes "well_formed st"
  shows "well_formed (snd (addPost st))"
proof -
  define card where "card = \<lparr>card_id = postCounter st + 1, post_title = postCounter st + 1,
    hours_input = ''12'', days_input = ''7'', staff_groups = []\<rparr>"
  define st2 where "st2 = st\<lparr>postCounter := postCounter st + 1,
    post_cards := post_cards st @ [card]\<rparr>"
  have "well_formed st2"
    using assms by (fastforce simp: well_formed_def st2_def card_def all_groups_def list_all_iff)
  then have added: "well_formed (snd (addStaff (postCounter st + 1) st2))"
    by (rule well_formed_addStaff)
  have thrown: "well_formed (st\<lparr>postCounter := postCounter st + 1\<rparr>)"
    using assms by (auto simp: well_formed_def all_groups_def list_all_iff)
  from added thrown show ?thesis
    by (simp add: addPost_def Let_def st2_def card_def)
qed

lemma set_remove_first: "set (remove_first P xs) \<subseteq> set xs"
  by (induction xs) auto

lemma distinct_map_remove_first:
  "distinct (map f xs) \<Longrightarrow> distinct (map f (remove_first P xs))"
proof (induction xs)
  case Nil
  then show ?case by simp
next
  case (Cons x xs)
  then show ?case
    using set_remove_first [of P xs] by auto
qed

lemma remove_first_filter:
  "distinct (map f xs) \<Longrightarrow> remove_first (\<lambda>x. f x = k) xs = filter (\<lambda>x. f x \<noteq> k) xs"
proof (induction xs)
  case Nil
  then show ?case by simp
next
  case (Cons x xs)
  show ?case
  proof (cases "f x = k")
    case True
    from Cons.prems have "f x \<notin> f ` set xs" by simp
    with True have "\<forall>y \<in> set xs. f y \<noteq> k" by (metis image_eqI)
    then have "filter (\<lambda>x. f x \<noteq> k) xs = xs" by simp
    with True show ?thesis by simp
  next
    case False
    with Cons show ?thesis by simp
  qed
qed

lemma card_id_renumber_from: "map card_id (renumber_from index ps) = map card_id ps"
  by (induction ps arbitrary: index) auto

lemma staff_groups_renumber_from: "map staff_groups (renumber_from index ps) = map staff_groups ps"
  by (induction ps arbitrary: index) auto

lemma titles_renumber_from: "map post_title (renumber_from index ps) = [index + 1 ..< index + length ps + 1]"
proof (induction ps arbitrary: index)
  case Nil
  then show ?case by simp
next
  case (Cons p ps)
  from Cons.IH [of "Suc index"] show ?case
    by (simp add: upt_conv_Cons del: upt_Suc)
qed

lemma distinct_groups_sublist:
  "distinct (map group_id (concat (map staff_groups ps))) \<Longrightarrow>
   distinct (map group_id (concat (map staff_groups (remove_first P ps))))"
proof (induction ps)
  case Nil
  then show ?case by simp
next
  case (Cons p ps)
  have "set (remove_first P ps) \<subseteq> set ps" by (rule set_remove_first)
  with Cons show ?case by auto
qed

lemma well_formed_removePost:
  assumes "well_formed st"
  shows "well_formed (removePost i st)"
proof (cases "getPostCard i st")
  case None
  with assms show ?thesis by (simp add: removePost_def)
next
  case (Some post)
  let ?ps = "remove_first (\<lambda>p. card_id p = i) (post_cards st)"
  have sub: "set ?ps \<subseteq> set (post_cards st)" by (rule set_remove_first)
  have ids: "map card_id (renumber_from 0 ?ps) = map card_id ?ps"
    by (rule card_id_renumber_from)
  have grp: "map staff_groups (renumber_from 0 ?ps) = map staff_groups ?ps"
    by (rule staff_groups_renumber_from)
  have d1: "distinct (map card_id ?ps)"
    using assms by (simp add: well_formed_def distinct_map_remove_first)
  have d2: "distinct (map group_id (concat (map staff_groups ?ps)))"
    using assms by (simp add: well_formed_def all_groups_def distinct_groups_sublist)
  have b1: "\<forall>k \<in> set (map card_id ?ps). k \<le> postCounter st"
    using assms sub by (auto simp: well_formed_def list_all_iff)
  have b2: "list_all (\<lambda>g. case staffCounter st (fst (group_id g)) of
      None \<Rightarrow> False | Some c \<Rightarrow> snd (group_id g) \<le> c) (concat (map staff_groups ?ps))"
    using assms sub by (auto simp: well_formed_def list_all_iff all_groups_def)
  have b1': "list_all (\<lambda>p. card_id p \<le> postCounter st) (renumber_from 0 ?ps)"
    using b1 ids by (metis (mono_tags, lifting) image_eqI list.set_map list_all_iff)
  show ?thesis
    using Some d1 d2 b1' b2
    by (simp add: removePost_def renumberPosts_def well_formed_def all_groups_def ids grp)
qed

lemma find_None_iff_all: "find P xs = None \<longleftrightarrow> (\<forall>x \<in> set xs. \<not> P x)"
  by (induction xs) auto

lemma filter_groups_none:
  "\<forall>g \<in> set (concat (map staff_groups ps)). group_id g \<noteq> sid \<Longrightarrow>
   map (\<lambda>p. p\<lparr>staff_groups := filter (\<lambda>g. group_id g \<noteq> sid) (staff_groups p)\<rparr>) ps = ps"
proof (induction ps)
  case Nil
  then show ?case by simp
next
  case (Cons p ps)
  then have "\<forall>g \<in> set (staff_groups p). group_id g \<noteq> sid" by simp
  then have "filter (\<lambda>g. group_id g \<noteq> sid) (staff_groups p) = staff_groups p"
    by simp
  with Cons show ?case by simp
qed

lemma remove_group_filter:
  "distinct (map group_id (concat (map staff_groups ps))) \<Longrightarrow>
   remove_group sid ps =
     map (\<lambda>p. p\<lparr>staff_groups := filter (\<lambda>g. group_id g \<noteq> sid) (staff_groups p)\<rparr>) ps"
proof (induction ps)
  case Nil
  then show ?case by simp
next
  case (Cons p ps)
  from Cons.prems have dp: "distinct (map group_id (staff_groups p))"
    and d: "distinct (map group_id (concat (map staff_groups ps)))"
    and disj: "group_id ` set (staff_groups p) \<inter> group_id ` set (concat (map staff_groups ps)) = {}"
    by auto
  show ?case
  proof (cases "find (\<lambda>g. group_id g = sid) (staff_groups p) = None")
    case True
    then have "\<forall>g \<in> set (staff_groups p). group_id g \<noteq> sid"
      by (simp add: find_None_iff_all)
    then have "filter (\<lambda>g. group_id g \<noteq> sid) (staff_groups p) = staff_groups p"
      by simp
    with True Cons.IH [OF d] show ?thesis by simp
  next
    case False
    then obtain g where g: "g \<in> set (staff_groups p)" "group_id g = sid"
      by (auto simp: find_None_iff_all)
    then have "sid \<in> group_id ` set (staff_groups p)" by blast
    with disj have "sid \<notin> group_id ` set (concat (map staff_groups ps))" by blast
    then have "\<forall>h \<in> set (concat (map staff_groups ps)). group_id h \<noteq> sid" by blast
    then have rest: "map (\<lambda>p. p\<lparr>staff_groups := filter (\<lambda>g. group_id g \<noteq> sid) (staff_groups p)\<rparr>) ps = ps"
      by (rule filter_groups_none)
    from False dp rest show ?thesis
      by (simp add: remove_first_filter)
  qed
qed

lemma removeStaff_filter:
  assumes "well_formed st"
  shows "removeStaff (GroupId sid) st =
    st\<lparr>post_cards :=
         map (\<lambda>p. p\<lparr>staff_groups := filter (\<lambda>g. group_id g \<noteq> sid) (staff_groups p)\<rparr>)
           (post_cards st)\<rparr>"
proof -
  have d: "distinct (map group_id (concat (map staff_groups (post_cards st))))"
    using assms by (simp add: well_formed_def all_groups_def)
  show ?thesis
  proof (cases "getStaffGroup sid st")
    case None
    then have "\<forall>g \<in> set (concat (map staff_groups (post_cards st))). group_id g \<noteq> sid"
      by (simp add: getStaffGroup_def all_groups_def find_None_iff_all)
    then have "map (\<lambda>p. p\<lparr>staff_groups := filter (\<lambda>g. group_id g \<noteq> sid) (staff_groups p)\<rparr>)
      (post_cards st) = post_cards st"
      by (rule filter_groups_none)
    with None show ?thesis by (simp add: removeStaff_def)
  next
    case (Some staff)
    with remove_group_filter [OF d, of sid] show ?thesis
      by (simp add: removeStaff_def)
  qed
qed

lemma card_id_remove_container: "map card_id (remove_container i ps) = map card_id ps"
  by (induction ps) auto

lemma set_groups_remove_container:
  "set (concat (map staff_groups (remove_container i ps))) \<subseteq> set (concat (map staff_groups ps))"
  by (induction ps) auto

lemma distinct_groups_remove_container:
  "distinct (map group_id (concat (map staff_groups ps))) \<Longrightarrow>
   distinct (map group_id (concat (map staff_groups (remove_container i ps))))"
proof (induction ps)
  case Nil
  then show ?case by simp
next
  case (Cons p ps)
  have "set (concat (map staff_groups (remove_container i ps)))
      \<subseteq> set (concat (map staff_groups ps))"
    by (rule set_groups_remove_container)
  with Cons show ?case by (auto simp del: set_concat)
qed

text \<open>Removing cards or groups keeps the ids unique.\<close>

lemma well_formed_fewer:
  assumes "well_formed st"
    and "distinct (map card_id ps)"
    and "set ps \<subseteq> set (post_cards st) \<or> map card_id ps = map card_id (post_cards st)"
    and "distinct (map group_id (concat (map staff_groups ps)))"
    and "set (concat (map staff_groups ps)) \<subseteq> set (all_groups st)"
  shows "well_formed (st\<lparr>post_cards := ps\<rparr>)"
proof -
  from assms(3) have "card_id ` set ps \<subseteq> card_id ` set (post_cards st)"
  proof
    assume "set ps \<subseteq> set (post_cards st)"
    then show ?thesis by blast
  next
    assume "map card_id ps = map card_id (post_cards st)"
    then have "set (map card_id ps) = set (map card_id (post_cards st))" by simp
    then show ?thesis by simp
  qed
  with assms(1) have b1: "list_all (\<lambda>p. card_id p \<le> postCounter st) ps"
    by (auto simp: well_formed_def list_all_iff)
  from assms(1,5) have b2: "list_all (\<lambda>g. case staffCounter st (fst (group_id g)) of
      None \<Rightarrow> False | Some c \<Rightarrow> snd (group_id g) \<le> c) (concat (map staff_groups ps))"
    by (auto simp: well_formed_def list_all_iff)
  from assms(2,4) b1 b2 show ?thesis
    by (simp add: well_formed_def all_groups_def)
qed

lemma well_formed_detach:
  "well_formed st \<Longrightarrow> well_formed (st\<lparr>detached := d\<rparr>)"
  by (simp add: well_formed_def all_groups_def)

lemma well_formed_remove_element:
  assumes "well_formed st"
  shows "well_formed (remove_element elementId st)"
proof (cases elementId)
  case (PostId p)
  let ?ps = "remove_first (\<lambda>c. card_id c = p) (post_cards st)"
  have sub: "set ?ps \<subseteq> set (post_cards st)" by (rule set_remove_first)
  have "well_formed (st\<lparr>post_cards := ?ps\<rparr>)"
  proof (rule well_formed_fewer [OF assms])
    show "distinct (map card_id ?ps)"
      using assms by (simp add: well_formed_def distinct_map_remove_first)
    show "set ?ps \<subseteq> set (post_cards st) \<or> map card_id ?ps = map card_id (post_cards st)"
      using sub by simp
    show "distinct (map group_id (concat (map staff_groups ?ps)))"
      using assms by (simp add: well_formed_def all_groups_def distinct_groups_sublist)
    show "set (concat (map staff_groups ?ps)) \<subseteq> set (all_groups st)"
      using sub by (auto simp: all_groups_def)
  qed
  with PostId show ?thesis by simp
next
  case (GroupId sid)
  let ?ps = "map (\<lambda>p. p\<lparr>staff_groups := filter (\<lambda>g. group_id g \<noteq> sid) (staff_groups p)\<rparr>)
    (post_cards st)"
  have d: "distinct (map group_id (concat (map staff_groups (post_cards st))))"
    using assms by (simp add: well_formed_def all_groups_def)
  have flat: "concat (map staff_groups ?ps) = filter (\<lambda>g. group_id g \<noteq> sid) (all_groups st)"
    by (simp add: all_groups_def filter_concat comp_def)
  have "well_formed (st\<lparr>post_cards := ?ps\<rparr>)"
  proof (rule well_formed_fewer [OF assms])
    show "distinct (map card_id ?ps)"
      using assms by (simp add: well_formed_def comp_def)
    show "set ?ps \<subseteq> set (post_cards st) \<or> map card_id ?ps = map card_id (post_cards st)"
      by (simp add: comp_def)
    show "distinct (map group_id (concat (map staff_groups ?ps)))"
      unfolding flat using assms by (simp add: well_formed_def distinct_map_filter)
    show "set (concat (map staff_groups ?ps)) \<subseteq> set (all_groups st)"
      unfolding flat by auto
  qed
  with GroupId remove_group_filter [OF d, of sid] show ?thesis by simp
next
  case (StaffContainerId p)
  let ?ps = "remove_container p (post_cards st)"
  have "well_formed (st\<lparr>post_cards := ?ps\<rparr>)"
  proof (rule well_formed_fewer [OF assms])
    show "distinct (map card_id ?ps)"
      using assms by (simp add: well_formed_def card_id_remove_container)
    show "set ?ps \<subseteq> set (post_cards st) \<or> map card_id ?ps = map card_id (post_cards st)"
      by (simp add: card_id_remove_container)
    show "distinct (map group_id (concat (map staff_groups ?ps)))"
      using assms by (simp add: well_formed_def all_groups_def distinct_groups_remove_container)
    show "set (concat (map staff_groups ?ps)) \<subseteq> set (all_groups st)"
      unfolding all_groups_def by (rule set_groups_remove_container)
  qed
  then have "well_formed (st\<lparr>post_cards := ?ps, detached := insert (StaffContainerId p) (detached st)\<rparr>)"
    by (simp add: well_formed_def all_groups_def)
  with StaffContainerId show ?thesis by simp
next
  case PostsContainerId
  then show ?thesis
    by (simp add: well_formed_def all_groups_def)
next
  case TmcSelectionId
  with assms show ?thesis
    by (simp add: well_formed_def all_groups_def)
qed (insert assms, simp_all add: well_formed_def all_groups_def)

lemma well_formed_removeStaff:
  "well_formed st \<Longrightarrow> well_formed (removeStaff elementId st)"
  by (simp add: removeStaff_def well_formed_remove_element)

lemma well_formed_run_ops: "well_formed st \<Longrightarrow> well_formed (run_ops ops st)"
proof (induction ops arbitrary: st)
  case Nil
  then show ?case by simp
next
  case (Cons op ops)
  then show ?case
    by (cases op) (simp_all add: well_formed_addPost well_formed_removePost)
qed

lemma well_formed_same_ids:
  assumes "well_formed st" "same_ids st st'"
  shows "well_formed st'"
proof -
  from assms(2) have c: "postCounter st' = postCounter st" "staffCounter st' = staffCounter st"
    and cards: "map card_id (post_cards st') = map card_id (post_cards st)"
    and groups: "map group_id (all_groups st') = map group_id (all_groups st)"
    by (simp_all add: same_ids_def)
  have b1: "list_all (\<lambda>p. card_id p \<le> n) ps \<longleftrightarrow> list_all (\<lambda>k. k \<le> n) (map card_id ps)"
    for n and ps :: "post_card list"
    by (simp add: list_all_iff)
  have b2: "list_all (\<lambda>g. case m (fst (group_id g)) of None \<Rightarrow> False
        | Some c \<Rightarrow> snd (group_id g) \<le> c) gs
      \<longleftrightarrow> list_all (\<lambda>k. case m (fst k) of None \<Rightarrow> False | Some c \<Rightarrow> snd k \<le> c) (map group_id gs)"
    for m :: "nat \<rightharpoonup> nat" and gs :: "staff_group list"
    by (simp add: list_all_iff)
  from assms(1) show ?thesis
    unfolding well_formed_def b1 b2 c cards groups .
qed

lemma same_ids_type_staff: "same_ids st (type_staff sid pos cnt sal st)"
proof -
  let ?edit = "\<lambda>g. if group_id g = sid
      then g\<lparr>position_input := pos, count_input := cnt, salary_input := sal\<rparr> else g"
  let ?ps = "map (\<lambda>p. p\<lparr>staff_groups := map ?edit (staff_groups p)\<rparr>) (post_cards st)"
  have flat: "concat (map staff_groups ?ps) = map ?edit (all_groups st)"
    by (simp add: all_groups_def map_concat comp_def)
  have ids: "map group_id (concat (map staff_groups ?ps)) = map group_id (all_groups st)"
    unfolding flat by (simp add: comp_def)
  have cards: "map card_id ?ps = map card_id (post_cards st)"
    by (simp add: comp_def)
  have "same_ids st (st\<lparr>post_cards := ?ps\<rparr>)"
    unfolding same_ids_def all_groups_def [of "st\<lparr>post_cards := ?ps\<rparr>"]
    using ids cards by simp
  then show ?thesis
    by (simp add: type_staff_def)
qed

lemma same_ids_calculate: "same_ids st (fst (calculate server st))"
  by (simp add: same_ids_def calculate_def displayResult_def all_groups_def Let_def
      split: sum.split response.split option.split)

lemma well_formed_type_staff:
  "well_formed st \<Longrightarrow> well_formed (type_staff sid pos cnt sal st)"
  by (erule well_formed_same_ids) (rule same_ids_type_staff)

lemma well_formed_calculate:
  "well_formed st \<Longrightarrow> well_formed (fst (calculate server st))"
  by (erule well_formed_same_ids) (rule same_ids_calculate)

text \<open>Every page that can be reached has unique ids, whatever has been removed from it.\<close>

lemma reachable_well_formed: "reachable st \<Longrightarrow> well_formed st"
proof (induction rule: reachable.induct)
  case (loaded markup)
  show ?case by (rule well_formed_initial)
next
  case (add_post st)
  then show ?case by (simp add: well_formed_addPost)
next
  case (remove_post st postId)
  then show ?case by (simp add: well_formed_removePost)
next
  case (add_staff st postId)
  then show ?case by (simp add: well_formed_addStaff)
next
  case (remove_staff st staffId)
  then show ?case by (simp add: well_formed_removeStaff)
next
  case (other st st')
  then show ?case by (blast intro: well_formed_same_ids)
qed

section \<open>Facts about the closed forms\<close>

lemma removePost_renumbers:
  "getPostCard i st = Some post \<Longrightarrow>
   displayed_numbers (removePost i st) = [1 ..< length (post_cards (removePost i st)) + 1]"
proof -
  assume "getPostCard i st = Some post"
  then have "post_cards (removePost i st) =
      renumber_from 0 (remove_first (\<lambda>p. card_id p = i) (post_cards st))"
    by (simp add: removePost_def renumberPosts_def)
  moreover have "length (renumber_from 0 ps) = length ps" for ps :: "post_card list"
    using card_id_renumber_from [of 0 ps] by (metis length_map)
  ultimately show ?thesis
    using titles_renumber_from [of 0 "remove_first (\<lambda>p. card_id p = i) (post_cards st)"]
    by (simp add: displayed_numbers_def del: upt_Suc)
qed

lemma staff_entries_from:
  "map staff (entries_from index ps) = filter (\<lambda>s. s \<noteq> []) (map card_staff ps)"
  by (induction ps arbitrary: index) (simp_all add: card_entry_def)

lemma card_staff_truthy:
  "e \<in> set (card_staff p) \<Longrightarrow> position e \<noteq> [] \<and> truthy (count e) \<and> truthy (net_salary e)"
  by (auto simp: card_staff_def group_entry_def group_valid_def)

lemma entries_from_empty:
  "\<forall>p \<in> set ps. card_staff p = [] \<Longrightarrow> entries_from index ps = []"
  by (induction ps arbitrary: index) simp_all

lemma filter_is_remove1:
  "distinct (map f xs) \<Longrightarrow> find (\<lambda>x. f x = k) xs = Some g \<Longrightarrow>
   filter (\<lambda>x. f x \<noteq> k) xs = remove1 g xs"
proof (induction xs)
  case Nil
  then show ?case by simp
next
  case (Cons x xs)
  show ?case
  proof (cases "f x = k")
    case True
    with Cons.prems have g: "g = x" by simp
    from Cons.prems have "f x \<notin> f ` set xs" by simp
    with True have "\<forall>y \<in> set xs. f y \<noteq> k" by (metis image_eqI)
    then have "filter (\<lambda>x. f x \<noteq> k) xs = xs" by simp
    with True g show ?thesis by simp
  next
    case False
    with Cons.prems have found: "find (\<lambda>x. f x = k) xs = Some g" by simp
    then have "f g = k" by (auto simp: find_Some_iff)
    with False have "x \<noteq> g" by auto
    with False Cons.IH found Cons.prems(1) show ?thesis by simp
  qed
qed

lemma resolve_selections_total:
  "\<forall>sel \<in> set sels. sel_item_id sel \<in> eq_id ` set registry \<Longrightarrow>
   \<exists>costs. resolve_selections registry sels = Inr costs"
proof (induction sels)
  case Nil
  then show ?case by simp
next
  case (Cons sel sels)
  then obtain costs where costs: "resolve_selections registry sels = Inr costs"
    by auto
  from Cons.prems have "sel_item_id sel \<in> eq_id ` set registry" by simp
  then have "find (\<lambda>item. eq_id item = sel_item_id sel) registry \<noteq> None"
    by (auto simp: find_None_iff_all)
  then obtain item where "find (\<lambda>item. eq_id item = sel_item_id sel) registry = Some item"
    by auto
  with costs show ?case by simp
qed

lemma not_in_map: "k \<notin> set (map f xs) \<Longrightarrow> \<forall>x \<in> set xs. f x \<noteq> k"
  by auto

section \<open>The claims\<close>

subsection \<open>C1: post numbers in the request\<close>

text \<open>
  C1 as stated fails. On the page with two posts of which only the second has a valid
  staff group, the request holds one post and its \<open>post_number\<close> is 2: the numbers of
  a request are not contiguous from 1 once a post is excluded.
\<close>

theorem post_numbers_counterexample:
  "map (map post_number \<circ> req_posts) (sent_requests (snd (calculate server_down page_second_filled))) = [[2]]
   \<and> \<not> contiguous_from_one [2]"
  by (simp add: calculate_def page_second_filled_def page_loaded_def type_staff_def addPost_def
      addStaff_def initial_page_def getPostCard_def getStaffGroup_def all_groups_def Let_def
      server_down_def caught_def contiguous_from_one_def value_defs
      parseInt_def parseFloat_def dec_digit_def hex_digit_def digits_value_def is_space_def
      exponent_part_def scale10_def)

text \<open>
  C1, amended: in a request that is sent, the \<open>post_number\<close> of a post is the position
  (from 1) of its card among all cards of the form in display order, whether the other
  cards are included or not. So the numbers are strictly increasing, they depend on no
  card id and on no deleted post, and they are exactly 1..N when no card is excluded.
  The page is one with unique ids, as every page that can be reached is.
\<close>

theorem post_numbers_display_positions:
  assumes "well_formed st"
    and "req \<in> set (sent_requests (snd (calculate server st)))"
  shows "map post_number (req_posts req) =
           map (\<lambda>k. k + 1)
             (filter (\<lambda>k. card_staff (post_cards st ! k) \<noteq> []) [0 ..< length (post_cards st)])
         \<and> sorted_wrt (<) (map post_number (req_posts req))
         \<and> ((\<forall>p \<in> set (post_cards st). card_staff p \<noteq> []) \<longrightarrow>
              contiguous_from_one (map post_number (req_posts req)) \<and>
              length (req_posts req) = length (post_cards st))"
proof -
  from assms have req: "req = built_request st"
    by (rule sent_request_is_built)
  then have posts: "req_posts req = entries_from 0 (post_cards st)"
    by (simp add: built_request_def)
  have a: "map post_number (req_posts req) =
      map (\<lambda>k. k + 1)
        (filter (\<lambda>k. card_staff (post_cards st ! k) \<noteq> []) [0 ..< length (post_cards st)])"
    unfolding posts using post_numbers_entries_from [of 0 "post_cards st"] by simp
  have b: "sorted_wrt (<) (map post_number (req_posts req))"
    unfolding posts using entries_from_increasing [of 0 "post_cards st"] by simp
  have c: "contiguous_from_one (map post_number (req_posts req)) \<and>
      length (req_posts req) = length (post_cards st)"
    if all: "\<forall>p \<in> set (post_cards st). card_staff p \<noteq> []"
  proof -
    from entries_from_all [OF all, of 0]
    have eq: "map post_number (req_posts req) = [1 ..< length (post_cards st) + 1]"
      unfolding posts by simp
    from eq have "length (map post_number (req_posts req)) =
        length [1 ..< length (post_cards st) + 1]"
      by (simp only:)
    then have len: "length (req_posts req) = length (post_cards st)"
      by (simp del: upt_Suc)
    with eq show ?thesis by (simp add: contiguous_from_one_def del: upt_Suc)
  qed
  from a b c show ?thesis by blast
qed

theorem post_numbers_display_positions_witness:
  "well_formed page_second_filled \<and>
   built_request page_second_filled
     \<in> set (sent_requests (snd (calculate server_down page_second_filled))) \<and>
   map post_number (req_posts (built_request page_second_filled)) = [2] \<and>
   well_formed page_guard \<and>
   built_request page_guard \<in> set (sent_requests (snd (calculate server_down page_guard))) \<and>
   [] \<notin> set (map card_staff (post_cards page_guard)) \<and>
   map post_number (req_posts (built_request page_guard)) = [1] \<and>
   contiguous_from_one (map post_number (req_posts (built_request page_guard)))"
proof -
  have wf: "well_formed page_second_filled"
    by (simp add: well_formed_def all_groups_def page_defs)
  have whole: "detached page_second_filled = {}"
    by (simp add: page_defs)
  have staff: "map card_staff (post_cards page_second_filled) =
      [[], [\<lparr>position = ''Guard'', count = Num 1, net_salary = Num 150000\<rparr>]]"
    by (simp add: page_defs parse_defs card_staff_def group_valid_def group_entry_def)
  then have nonempty: "entries_from 0 (post_cards page_second_filled) \<noteq> []"
    by (cases "post_cards page_second_filled") auto
  have sent: "built_request page_second_filled
      \<in> set (sent_requests (snd (calculate server_down page_second_filled)))"
    using nonempty by (simp add: sent_requests_calculate [OF wf whole])
  have positions: "map (\<lambda>k. k + 1)
      (filter (\<lambda>k. card_staff (post_cards page_second_filled ! k) \<noteq> [])
        [0 ..< length (post_cards page_second_filled)]) = [2]"
    by (simp add: page_defs parse_defs card_staff_def group_valid_def upt_conv_Cons del: upt_Suc)
  from post_numbers_display_positions [OF wf sent] positions
  have first: "map post_number (req_posts (built_request page_second_filled)) = [2]"
    by simp
  have wf': "well_formed page_guard"
    by (simp add: well_formed_def all_groups_def page_defs)
  have whole': "detached page_guard = {}"
    by (simp add: page_defs)
  have staff': "map card_staff (post_cards page_guard) =
      [[\<lparr>position = ''Guard'', count = Num 2, net_salary = Num 150000\<rparr>]]"
    by (simp add: page_defs parse_defs card_staff_def group_valid_def group_entry_def)
  then have included: "[] \<notin> set (map card_staff (post_cards page_guard))"
    by simp
  then have all: "\<forall>p \<in> set (post_cards page_guard). card_staff p \<noteq> []"
    by (rule not_in_map)
  from staff' have nonempty': "entries_from 0 (post_cards page_guard) \<noteq> []"
    by (cases "post_cards page_guard") auto
  have sent': "built_request page_guard
      \<in> set (sent_requests (snd (calculate server_down page_guard)))"
    using nonempty' by (simp add: sent_requests_calculate [OF wf' whole'])
  from staff' have one: "length (post_cards page_guard) = 1"
    by (metis length_map list.size(3,4) One_nat_def add.left_neutral)
  from post_numbers_display_positions [OF wf' sent'] all
  have contiguous: "contiguous_from_one (map post_number (req_posts (built_request page_guard)))"
    and len: "length (req_posts (built_request page_guard)) = length (post_cards page_guard)"
    by blast+
  from contiguous len one
  have second: "map post_number (req_posts (built_request page_guard)) = [1]"
    by (simp add: contiguous_from_one_def)
  from wf sent first wf' sent' included second contiguous show ?thesis
    by (simp only: simp_thms)
qed

subsection \<open>C2: displayed numbers after adding and removing posts\<close>

text \<open>
  C2 fails on the code. \<open>removePost\<close> renumbers the titles, but \<open>addPost\<close> writes
  the value of \<open>postCounter\<close>, which never goes down, into the title of the new card.
  After two posts are added, the first is removed and a third is added, the titles read
  1, 3 where the claim says 1, 2.
\<close>

theorem add_after_remove_leaves_gap:
  "displayed_numbers (run_ops [AddPost, AddPost, RemovePost 1, AddPost] (initial_page ''20''))
     = [1, 3]"
  by (simp add: displayed_numbers_def addPost_def addStaff_def removePost_def renumberPosts_def
      getPostCard_def initial_page_def Let_def)

subsection \<open>C3: posts and staff entries kept by the serialization\<close>

text \<open>
  C3 as stated fails. The test \<open>position && count && salary\<close> drops an entry whose
  count or salary is \<open>NaN\<close> or zero, not one that is negative: with the count \<open>-3\<close>
  typed in, the request holds a post whose only staff entry has a non-positive count.
\<close>

theorem negative_count_counterexample:
  "map (map staff \<circ> req_posts) (sent_requests (snd (calculate server_down page_negative_count)))
     = [[[\<lparr>position = ''Guard'', count = Num (- 3), net_salary = Num 150000\<rparr>]]]
   \<and> \<not> spec_valid_entry \<lparr>position = ''Guard'', count = Num (- 3), net_salary = Num 150000\<rparr>"
  by (simp add: calculate_def page_defs parse_defs getStaffGroup_def all_groups_def
      server_down_def caught_def spec_valid_entry_def value_defs)

text \<open>
  C3, amended: an entry is dropped when its position is empty or its count or salary
  parses to \<open>NaN\<close> or to zero, and kept otherwise (a negative number is kept). Every
  post of a request that is sent has a non-empty staff list, every entry in it passes
  that test, and the staff lists of the request are exactly the non-empty filtered lists
  of the cards, in display order: no dropped entry appears in the request. The page is
  one with unique ids, as every page that can be reached is.
\<close>

theorem request_staff_is_filtered:
  assumes "well_formed st"
    and "req \<in> set (sent_requests (snd (calculate server st)))"
  shows "(\<forall>pe \<in> set (req_posts req). staff pe \<noteq> [] \<and>
            (\<forall>e \<in> set (staff pe).
               position e \<noteq> [] \<and> truthy (count e) \<and> truthy (net_salary e)))
         \<and> map staff (req_posts req) = filter (\<lambda>s. s \<noteq> []) (map card_staff (post_cards st))"
proof -
  from assms have "req = built_request st"
    by (rule sent_request_is_built)
  then have posts: "req_posts req = entries_from 0 (post_cards st)"
    by (simp add: built_request_def)
  have lists: "map staff (req_posts req) = filter (\<lambda>s. s \<noteq> []) (map card_staff (post_cards st))"
    unfolding posts by (rule staff_entries_from)
  have "staff pe \<noteq> [] \<and>
      (\<forall>e \<in> set (staff pe). position e \<noteq> [] \<and> truthy (count e) \<and> truthy (net_salary e))"
    if "pe \<in> set (req_posts req)" for pe
  proof -
    from that have "staff pe \<in> set (map staff (req_posts req))" by simp
    then have "staff pe \<in> set (filter (\<lambda>s. s \<noteq> []) (map card_staff (post_cards st)))"
      by (simp only: lists)
    then obtain p where "staff pe = card_staff p" "card_staff p \<noteq> []" by auto
    then show ?thesis using card_staff_truthy [of _ p] by auto
  qed
  with lists show ?thesis by blast
qed

theorem request_staff_is_filtered_witness:
  "well_formed page_negative_count \<and>
   built_request page_negative_count
     \<in> set (sent_requests (snd (calculate server_down page_negative_count))) \<and>
   map staff (req_posts (built_request page_negative_count))
     = [[\<lparr>position = ''Guard'', count = Num (- 3), net_salary = Num 150000\<rparr>]]"
proof -
  have wf: "well_formed page_negative_count"
    by (simp add: well_formed_def all_groups_def page_defs)
  have whole: "detached page_negative_count = {}"
    by (simp add: page_defs)
  have staff: "map card_staff (post_cards page_negative_count)
      = [[\<lparr>position = ''Guard'', count = Num (- 3), net_salary = Num 150000\<rparr>]]"
    by (simp add: page_defs parse_defs card_staff_def group_valid_def group_entry_def)
  then have nonempty: "entries_from 0 (post_cards page_negative_count) \<noteq> []"
    by (cases "post_cards page_negative_count") auto
  have sent: "built_request page_negative_count
      \<in> set (sent_requests (snd (calculate server_down page_negative_count)))"
    using nonempty by (simp add: sent_requests_calculate [OF wf whole])
  from request_staff_is_filtered [OF wf sent] staff wf sent
  show ?thesis by simp
qed

subsection \<open>C4: the arithmetic of the summary\<close>

text \<open>
  C4: for every request whose selected items are all in the registry, the calculator
  answers with a result, and in it the subtotal is the sum of the labour cost and the
  equipment cost, the markup amount is the subtotal times the markup percentage over 100,
  and the final price is the subtotal plus the markup amount, which is the subtotal times
  \<open>1 + markup_percent / 100\<close>. The numbers are exact rationals. Nothing is asked of
  the signs, so every request with non-negative fields is covered.
\<close>

theorem summary_arithmetic:
  assumes "\<forall>sel \<in> set (cr_tmc_items rq). sel_item_id sel \<in> eq_id ` set registry"
  shows "\<exists>res. pricing_calculator registry rq = Inr res
       \<and> subtotal res = total_labor_cost res + total_tmc_cost res
       \<and> markup_percent res = cr_markup_percent rq
       \<and> markup_amount res = subtotal res * markup_percent res / 100
       \<and> final_price res = subtotal res + markup_amount res
       \<and> final_price res = subtotal res * (1 + markup_percent res / 100)"
proof -
  from resolve_selections_total [OF assms] obtain costs
    where costs: "resolve_selections registry (cr_tmc_items rq) = Inr costs"
    by blast
  define labor where "labor = sum_list (map post_labor_cost (cr_posts rq))"
  define res where "res =
      \<lparr>total_labor_cost = labor, total_tmc_cost = sum_list costs,
       subtotal = labor + sum_list costs, markup_percent = cr_markup_percent rq,
       markup_amount = (labor + sum_list costs) * cr_markup_percent rq / 100,
       final_price = labor + sum_list costs + (labor + sum_list costs) * cr_markup_percent rq / 100,
       total_posts = length (cr_posts rq)\<rparr>"
  have run: "pricing_calculator registry rq = Inr res"
    using costs by (simp add: pricing_calculator_def Let_def res_def labor_def)
  have "final_price res = subtotal res * (1 + markup_percent res / 100)"
    by (simp add: res_def algebra_simps)
  with run show ?thesis
    by (intro exI [of _ res]) (simp add: res_def)
qed

theorem summary_arithmetic_witness:
  "map sel_item_id (cr_tmc_items example_request_equipment) = [3]
   \<and> map eq_id example_registry = [3]
   \<and> pricing_calculator example_registry example_request_equipment =
       Inr \<lparr>total_labor_cost = 300000, total_tmc_cost = 20000, subtotal = 320000,
            markup_percent = 20, markup_amount = 64000, final_price = 384000,
            total_posts = 1\<rparr>
   \<and> pricing_calculator [] example_request =
       Inr \<lparr>total_labor_cost = 300000, total_tmc_cost = 0, subtotal = 300000,
            markup_percent = 20, markup_amount = 60000, final_price = 360000,
            total_posts = 1\<rparr>"
proof -
  have known: "\<forall>sel \<in> set (cr_tmc_items example_request_equipment).
      sel_item_id sel \<in> eq_id ` set example_registry"
    by (simp add: example_request_equipment_def example_request_def example_registry_def)
  have none: "\<forall>sel \<in> set (cr_tmc_items example_request). sel_item_id sel \<in> eq_id ` set []"
    by (simp add: example_request_def)
  from summary_arithmetic [OF known] obtain res
    where "pricing_calculator example_registry example_request_equipment = Inr res"
    by blast
  then have first: "pricing_calculator example_registry example_request_equipment =
       Inr \<lparr>total_labor_cost = 300000, total_tmc_cost = 20000, subtotal = 320000,
            markup_percent = 20, markup_amount = 64000, final_price = 384000,
            total_posts = 1\<rparr>"
    by (simp add: pricing_calculator_def example_request_equipment_def example_request_def
        example_registry_def post_labor_cost_def total_cost_group_def monthly_cost_def Let_def)
  from summary_arithmetic [OF none] obtain res'
    where "pricing_calculator [] example_request = Inr res'"
    by blast
  then have second: "pricing_calculator [] example_request =
       Inr \<lparr>total_labor_cost = 300000, total_tmc_cost = 0, subtotal = 300000,
            markup_percent = 20, markup_amount = 60000, final_price = 360000,
            total_posts = 1\<rparr>"
    by (simp add: pricing_calculator_def example_request_def post_labor_cost_def
        total_cost_group_def Let_def)
  from first second show ?thesis
    by (simp add: example_request_equipment_def example_request_def example_registry_def)
qed

subsection \<open>C5: the markup of the request\<close>

text \<open>
  C5 as stated fails. A negative markup is sent as it is, so the field of the request
  need not be non-negative; and a markup of \<open>0\<close>, a numeric value that is present, is
  replaced by 20, since \<open>||\<close> takes zero for absent.
\<close>

theorem markup_counterexample:
  "map req_markup_percent
     (sent_requests (snd (calculate server_down (page_guard\<lparr>markup_input := ''-5''\<rparr>))))
     = [Num (- 5)]
   \<and> \<not> non_negative (Num (- 5))
   \<and> parseFloat ''0'' = Num 0
   \<and> map req_markup_percent
        (sent_requests (snd (calculate server_down (page_guard\<lparr>markup_input := ''0''\<rparr>))))
        = [Num 20]"
  by (simp add: calculate_def page_defs parse_defs getStaffGroup_def all_groups_def
      server_down_def caught_def js_or_def value_defs)

text \<open>
  C5, amended: in a request that is sent, \<open>markup_percent\<close> is the parsed value of the
  markup field whenever that value is a number other than zero (a negative one
  included), and it is 20 when the field does not parse to a number, as the empty field
  does not. Nothing is said of a field that parses to zero.
\<close>

theorem markup_parsed_or_default:
  assumes "req \<in> set (sent_requests (snd (calculate server st)))"
  shows "(truthy (parseFloat (markup_input st)) \<longrightarrow>
            req_markup_percent req = parseFloat (markup_input st))
       \<and> (parseFloat (markup_input st) = NaN \<longrightarrow> req_markup_percent req = Num 20)
       \<and> parseFloat [] = NaN"
proof -
  from sent_request_shape [OF assms]
  have "req_markup_percent req = js_or (parseFloat (markup_input st)) (Num 20)"
    by auto
  moreover have "parseFloat [] = NaN"
    by (simp add: parseFloat_def)
  ultimately show ?thesis
    by (simp add: js_or_def)
qed

theorem markup_parsed_or_default_witness:
  "built_request (page_guard\<lparr>markup_input := ''12.5''\<rparr>)
     \<in> set (sent_requests (snd (calculate server_down (page_guard\<lparr>markup_input := ''12.5''\<rparr>))))
   \<and> parseFloat ''12.5'' = Num (25 / 2)
   \<and> req_markup_percent (built_request (page_guard\<lparr>markup_input := ''12.5''\<rparr>)) = Num (25 / 2)
   \<and> built_request (page_guard\<lparr>markup_input := []\<rparr>)
     \<in> set (sent_requests (snd (calculate server_down (page_guard\<lparr>markup_input := []\<rparr>))))
   \<and> parseFloat [] = NaN
   \<and> req_markup_percent (built_request (page_guard\<lparr>markup_input := []\<rparr>)) = Num 20"
proof -
  have wf: "well_formed (page_guard\<lparr>markup_input := m\<rparr>)" for m
    by (simp add: well_formed_def all_groups_def page_defs)
  have whole: "detached (page_guard\<lparr>markup_input := m\<rparr>) = {}" for m
    by (simp add: page_defs)
  have nonempty: "entries_from 0 (post_cards (page_guard\<lparr>markup_input := m\<rparr>)) \<noteq> []" for m
    by (simp add: page_defs parse_defs card_staff_def group_valid_def)
  have sent: "built_request (page_guard\<lparr>markup_input := m\<rparr>)
      \<in> set (sent_requests (snd (calculate server_down (page_guard\<lparr>markup_input := m\<rparr>))))" for m
    using nonempty [of m] by (simp add: sent_requests_calculate [OF wf whole])
  have parsed: "parseFloat ''12.5'' = Num (25 / 2)"
    by (simp add: parse_defs)
  from markup_parsed_or_default [OF sent [of "''12.5''"]] parsed
  have typed: "req_markup_percent (built_request (page_guard\<lparr>markup_input := ''12.5''\<rparr>))
      = Num (25 / 2)"
    by simp
  from markup_parsed_or_default [OF sent [of "[]"]]
  have empty: "parseFloat [] = NaN"
    and default: "req_markup_percent (built_request (page_guard\<lparr>markup_input := []\<rparr>)) = Num 20"
    by simp_all
  from sent [of "''12.5''"] parsed typed sent [of "[]"] empty default show ?thesis
    by (simp only: simp_thms)
qed

subsection \<open>C6: a submission without posts\<close>

text \<open>
  C6: on a page with unique ids, when the filtered staff list of every card is empty,
  \<open>calculate\<close> sends no request to the server and leaves the page, with its result
  block, as it was; the user gets one message. With every input in its place, as on every
  page that the buttons and the typing of the user produce, the run is exactly the message
  asking for a post with staff. Should an input have been removed from the document, the
  run can instead end in the failure message for the TypeError, still before any request.
\<close>

theorem no_posts_rejected_before_fetch:
  assumes "well_formed st"
    and "\<forall>p \<in> set (post_cards st). card_staff p = []"
  shows "(detached st = {} \<longrightarrow> calculate server st = (st, [AlertNoPosts]))
       \<and> fst (calculate server st) = st
       \<and> sent_requests (snd (calculate server st)) = []
       \<and> result_shown (fst (calculate server st)) = result_shown st
       \<and> result_hidden (fst (calculate server st)) = result_hidden st
       \<and> (snd (calculate server st) = [AlertNoPosts] \<or>
          snd (calculate server st) = [ConsoleError TypeError, AlertFailed TypeError])"
proof -
  from assms(2) have none: "entries_from 0 (post_cards st) = []"
    by (rule entries_from_empty)
  have whole: "calculate server st = (st, [AlertNoPosts])" if "detached st = {}"
    using none by (simp add: calculate_closed [OF assms(1) that])
  have either: "calculate server st = (st, [AlertNoPosts]) \<or>
      calculate server st = (st, [ConsoleError TypeError, AlertFailed TypeError])"
  proof (cases "collect_posts st 0 (post_cards st) []")
    case (Inl e)
    then have "e = TypeError" by (rule collect_posts_error)
    with Inl show ?thesis by (simp add: calculate_def caught_def)
  next
    case (Inr posts)
    from collect_posts_result [OF assms(1) subset_refl Inr] none have "posts = []"
      by simp
    with Inr show ?thesis by (simp add: calculate_def)
  qed
  from either have "fst (calculate server st) = st"
    and "sent_requests (snd (calculate server st)) = []"
    and "snd (calculate server st) = [AlertNoPosts] \<or>
      snd (calculate server st) = [ConsoleError TypeError, AlertFailed TypeError]"
    by auto
  with whole show ?thesis by simp
qed

theorem no_posts_rejected_before_fetch_witness:
  "well_formed page_loaded \<and> map card_staff (post_cards page_loaded) = [[]] \<and>
   detached page_loaded = {} \<and>
   calculate server_refuses page_loaded = (page_loaded, [AlertNoPosts]) \<and>
   sent_requests (snd (calculate server_refuses page_loaded)) = [] \<and>
   well_formed (removeStaff (HoursId 1) page_loaded) \<and>
   map card_staff (post_cards (removeStaff (HoursId 1) page_loaded)) = [[]] \<and>
   sent_requests (snd (calculate server_refuses (removeStaff (HoursId 1) page_loaded))) = [] \<and>
   snd (calculate server_refuses (removeStaff (HoursId 1) page_loaded)) =
     [ConsoleError TypeError, AlertFailed TypeError]"
proof -
  have wf: "well_formed page_loaded"
    by (simp add: well_formed_def all_groups_def page_defs)
  have whole: "detached page_loaded = {}"
    by (simp add: page_defs)
  have staff: "map card_staff (post_cards page_loaded) = [[]]"
    by (simp add: page_defs card_staff_def group_valid_def)
  have none: "\<forall>p \<in> set (post_cards page_loaded). card_staff p = []"
    using staff by (cases "post_cards page_loaded") auto
  from no_posts_rejected_before_fetch [OF wf none, of server_refuses] whole
  have first: "calculate server_refuses page_loaded = (page_loaded, [AlertNoPosts])"
    and nothing: "sent_requests (snd (calculate server_refuses page_loaded)) = []"
    by simp_all
  have wf': "well_formed (removeStaff (HoursId 1) page_loaded)"
    using wf by (rule well_formed_removeStaff)
  have staff': "map card_staff (post_cards (removeStaff (HoursId 1) page_loaded)) = [[]]"
    by (simp add: removeStaff_def page_defs card_staff_def group_valid_def)
  have none': "\<forall>p \<in> set (post_cards (removeStaff (HoursId 1) page_loaded)). card_staff p = []"
    using staff' by (cases "post_cards (removeStaff (HoursId 1) page_loaded)") auto
  have thrown: "snd (calculate server_refuses (removeStaff (HoursId 1) page_loaded)) \<noteq> [AlertNoPosts]"
    by (simp add: calculate_def removeStaff_def page_defs value_defs caught_def)
  from no_posts_rejected_before_fetch [OF wf' none', of server_refuses] thrown
  have nothing': "sent_requests (snd (calculate server_refuses (removeStaff (HoursId 1) page_loaded))) = []"
    and second: "snd (calculate server_refuses (removeStaff (HoursId 1) page_loaded)) =
      [ConsoleError TypeError, AlertFailed TypeError]"
    by simp_all
  from wf staff whole first nothing wf' staff' nothing' second show ?thesis
    by simp
qed

subsection \<open>C7: a submission that fails\<close>

text \<open>
  C7: when the request of a run is sent and the server cannot be reached or answers
  with a status that is not ok, the page after the run is the page before it, the request
  was sent exactly once, and the only other effects are the console line and the alert
  for the error that was caught.
\<close>

theorem failed_submission_leaves_page:
  assumes "req \<in> set (sent_requests (snd (calculate server st)))"
    and "failed (server req)"
  shows "fst (calculate server st) = st
       \<and> sent_requests (snd (calculate server st)) = [req]
       \<and> snd (calculate server st) =
           (if server req = Rejected
            then [Fetch req, ConsoleError FetchError, AlertFailed FetchError]
            else [Fetch req, ConsoleError CalcError, AlertFailed CalcError])"
proof -
  from sent_request_shape [OF assms(1)] obtain posts tmc where
    posts: "collect_posts st 0 (post_cards st) [] = Inr posts" "posts \<noteq> []"
    and tmc: "collect_tmc st (tmcItems st) [] = Inr tmc"
    and markup: "markup_value st = Some (markup_input st)"
    and req: "req = \<lparr>req_posts = posts, req_tmc_items = tmc,
            req_markup_percent = js_or (parseFloat (markup_input st)) (Num 20)\<rparr>"
    and one: "sent_requests (snd (calculate server st)) = [req]"
    by blast
  show ?thesis
  proof (cases "server req")
    case Rejected
    with posts tmc markup req one show ?thesis
      by (simp add: calculate_def Let_def caught_def)
  next
    case (Response ok body)
    with assms(2) have "\<not> ok" by simp
    with Response posts tmc markup req one show ?thesis
      by (simp add: calculate_def Let_def caught_def)
  qed
qed

theorem failed_submission_leaves_page_witness:
  "built_request page_guard \<in> set (sent_requests (snd (calculate server_refuses page_guard)))
   \<and> failed (server_refuses (built_request page_guard) :: unit response)
   \<and> calculate server_refuses page_guard =
       (page_guard, [Fetch (built_request page_guard), ConsoleError CalcError, AlertFailed CalcError])
   \<and> built_request page_guard \<in> set (sent_requests (snd (calculate server_down page_guard)))
   \<and> failed (server_down (built_request page_guard) :: unit response)
   \<and> calculate server_down page_guard =
       (page_guard, [Fetch (built_request page_guard), ConsoleError FetchError, AlertFailed FetchError])"
proof -
  have wf: "well_formed page_guard"
    by (simp add: well_formed_def all_groups_def page_defs)
  have whole: "detached page_guard = {}"
    by (simp add: page_defs)
  have nonempty: "entries_from 0 (post_cards page_guard) \<noteq> []"
    by (simp add: page_defs parse_defs card_staff_def group_valid_def)
  have sent: "built_request page_guard
      \<in> set (sent_requests (snd (calculate server page_guard)))" for server
    using nonempty by (simp add: sent_requests_calculate [OF wf whole])
  have fails: "failed (server_refuses (built_request page_guard) :: unit response)"
    by (simp add: server_refuses_def)
  have answer: "server_refuses (built_request page_guard) \<noteq> (Rejected :: unit response)"
    by (simp add: server_refuses_def)
  from failed_submission_leaves_page [OF sent [of server_refuses] fails] answer
  have refused: "calculate server_refuses page_guard =
      (page_guard, [Fetch (built_request page_guard), ConsoleError CalcError, AlertFailed CalcError])"
    by (simp add: prod_eq_iff)
  have fails': "failed (server_down (built_request page_guard) :: unit response)"
    by (simp add: server_down_def)
  have answer': "server_down (built_request page_guard) = (Rejected :: unit response)"
    by (simp add: server_down_def)
  from failed_submission_leaves_page [OF sent [of server_down] fails'] answer'
  have down: "calculate server_down page_guard =
      (page_guard, [Fetch (built_request page_guard), ConsoleError FetchError, AlertFailed FetchError])"
    by (simp add: prod_eq_iff)
  from sent [of server_refuses] fails refused sent [of server_down] fails' down show ?thesis
    by (simp only: simp_thms)
qed

subsection \<open>C8: removeStaff touches one group only\<close>

text \<open>
  C8: on a page whose ids are unique, \<open>removeStaff\<close> with the id \<open>staff-P-N\<close> of a
  staff group yields the same page with the group of that id filtered out of the staff
  list of each card. So the groups of
  the page are the former ones without the referenced group, in the same order; the
  counters, the inputs and ids of every card and the displayed post numbers are
  unchanged.
\<close>

theorem removeStaff_removes_only_the_group:
  assumes "well_formed st"
  shows "removeStaff (GroupId sid) st =
           st\<lparr>post_cards :=
                map (\<lambda>p. p\<lparr>staff_groups := filter (\<lambda>g. group_id g \<noteq> sid) (staff_groups p)\<rparr>)
                  (post_cards st)\<rparr>
       \<and> all_groups (removeStaff (GroupId sid) st) =
           (case getStaffGroup sid st of
              None \<Rightarrow> all_groups st
            | Some g \<Rightarrow> remove1 g (all_groups st))
       \<and> displayed_numbers (removeStaff (GroupId sid) st) = displayed_numbers st
       \<and> map card_id (post_cards (removeStaff (GroupId sid) st)) = map card_id (post_cards st)
       \<and> map hours_input (post_cards (removeStaff (GroupId sid) st)) = map hours_input (post_cards st)
       \<and> map days_input (post_cards (removeStaff (GroupId sid) st)) = map days_input (post_cards st)"
proof -
  let ?keep = "\<lambda>g. group_id g \<noteq> sid"
  let ?ps = "map (\<lambda>p. p\<lparr>staff_groups := filter ?keep (staff_groups p)\<rparr>) (post_cards st)"
  have eq: "removeStaff (GroupId sid) st = st\<lparr>post_cards := ?ps\<rparr>"
    using assms by (rule removeStaff_filter)
  have flat: "all_groups (st\<lparr>post_cards := ?ps\<rparr>) = filter ?keep (all_groups st)"
    by (simp add: all_groups_def filter_concat comp_def)
  have d: "distinct (map group_id (all_groups st))"
    using assms by (simp add: well_formed_def)
  have groups: "filter ?keep (all_groups st) =
      (case getStaffGroup sid st of None \<Rightarrow> all_groups st | Some g \<Rightarrow> remove1 g (all_groups st))"
  proof (cases "getStaffGroup sid st")
    case None
    then have "\<forall>g \<in> set (all_groups st). group_id g \<noteq> sid"
      by (simp add: getStaffGroup_def find_None_iff_all)
    with None show ?thesis by simp
  next
    case (Some g)
    then have "find (\<lambda>g. group_id g = sid) (all_groups st) = Some g"
      by (simp add: getStaffGroup_def)
    with d have "filter ?keep (all_groups st) = remove1 g (all_groups st)"
      by (rule filter_is_remove1)
    with Some show ?thesis by simp
  qed
  have titles: "displayed_numbers (st\<lparr>post_cards := ?ps\<rparr>) = displayed_numbers st"
    by (simp add: displayed_numbers_def comp_def)
  have fields: "map card_id ?ps = map card_id (post_cards st)"
    "map hours_input ?ps = map hours_input (post_cards st)"
    "map days_input ?ps = map days_input (post_cards st)"
    by (simp_all add: comp_def)
  show ?thesis
    unfolding eq using flat groups titles fields by simp
qed

theorem removeStaff_removes_only_the_group_witness:
  "well_formed page_two_groups
   \<and> map (map group_id \<circ> staff_groups) (post_cards page_two_groups) = [[(1, 1), (1, 2)], [(2, 1)]]
   \<and> map (map group_id \<circ> staff_groups) (post_cards (removeStaff (GroupId (1, 2)) page_two_groups))
       = [[(1, 1)], [(2, 1)]]
   \<and> displayed_numbers (removeStaff (GroupId (1, 2)) page_two_groups) = [1, 2]"
proof -
  have wf: "well_formed page_two_groups"
    by (simp add: well_formed_def all_groups_def page_two_groups_def page_defs)
  have before: "map (map group_id \<circ> staff_groups) (post_cards page_two_groups)
      = [[(1, 1), (1, 2)], [(2, 1)]]"
    by (simp add: page_two_groups_def page_defs)
  have titles: "displayed_numbers page_two_groups = [1, 2]"
    by (simp add: displayed_numbers_def page_two_groups_def page_defs)
  have cards: "map (map group_id \<circ> staff_groups)
      (map (\<lambda>p. p\<lparr>staff_groups := filter (\<lambda>g. group_id g \<noteq> (1, 2)) (staff_groups p)\<rparr>)
        (post_cards page_two_groups)) = [[(1, 1)], [(2, 1)]]"
    by (simp add: page_two_groups_def page_defs)
  note removed = removeStaff_removes_only_the_group [OF wf, of "(1, 2)"]
  from removed have eq: "removeStaff (GroupId (1, 2)) page_two_groups =
      page_two_groups\<lparr>post_cards :=
        map (\<lambda>p. p\<lparr>staff_groups := filter (\<lambda>g. group_id g \<noteq> (1, 2)) (staff_groups p)\<rparr>)
          (post_cards page_two_groups)\<rparr>"
    by (rule conjunct1)
  from removed have same: "displayed_numbers (removeStaff (GroupId (1, 2)) page_two_groups) =
      displayed_numbers page_two_groups"
    by blast
  have after: "map (map group_id \<circ> staff_groups) (post_cards (removeStaff (GroupId (1, 2)) page_two_groups))
      = [[(1, 1)], [(2, 1)]]"
    unfolding eq using cards by simp
  from wf before after same titles show ?thesis
    by (simp only: simp_thms)
qed

subsection \<open>C9: the equipment of the request\<close>

text \<open>
  C9: in a request that is sent, \<open>tmc_items\<close> lists, in the order of \<open>tmcItems\<close>, the
  items whose checkbox exists and is checked, each with the parsed value of its quantity
  input, or with 1 when that value is \<open>NaN\<close> or zero.
\<close>

theorem tmc_items_are_checked_rows:
  assumes "req \<in> set (sent_requests (snd (calculate server st)))"
  shows "req_tmc_items req = map (row_entry st) (filter (row_checked st) (tmcItems st))"
proof -
  from sent_request_shape [OF assms] obtain tmc
    where "collect_tmc st (tmcItems st) [] = Inr tmc" and "req_tmc_items req = tmc"
    by auto
  then show ?thesis
    using collect_tmc_result [of st "tmcItems st" "[]" tmc] by simp
qed

theorem tmc_items_are_checked_rows_witness:
  "built_request page_equipment
     \<in> set (sent_requests (snd (calculate server_down page_equipment)))
   \<and> req_tmc_items (built_request page_equipment) =
       [\<lparr>item_id = 7, quantity = Num 3\<rparr>, \<lparr>item_id = 4, quantity = Num 1\<rparr>,
        \<lparr>item_id = 5, quantity = Num 1\<rparr>]"
proof -
  have wf: "well_formed page_equipment"
    by (simp add: well_formed_def all_groups_def page_equipment_def page_defs)
  have whole: "detached page_equipment = {}"
    by (simp add: page_equipment_def page_defs)
  have nonempty: "entries_from 0 (post_cards page_equipment) \<noteq> []"
    by (simp add: page_equipment_def page_defs parse_defs card_staff_def group_valid_def)
  have sent: "built_request page_equipment
      \<in> set (sent_requests (snd (calculate server_down page_equipment)))"
    using nonempty by (simp add: sent_requests_calculate [OF wf whole])
  have rows: "map (row_entry page_equipment) (filter (row_checked page_equipment) (tmcItems page_equipment))
      = [\<lparr>item_id = 7, quantity = Num 3\<rparr>, \<lparr>item_id = 4, quantity = Num 1\<rparr>,
         \<lparr>item_id = 5, quantity = Num 1\<rparr>]"
    by (simp add: page_equipment_def page_defs parse_defs row_entry_def row_checked_def
        value_defs)
  from tmc_items_are_checked_rows [OF sent] rows sent show ?thesis
    by simp
qed

subsection \<open>C10: removing an id that is not there\<close>

text \<open>
  C10 as stated fails. \<open>removeStaff\<close> removes whatever element has the id it is given.
  The id \<open>hours-1\<close> matches no post and no staff group, yet \<open>removeStaff('hours-1')\<close>
  takes the hours input of the first post out of the document: the page is changed, and
  where \<open>calculate\<close> built and sent a request before, it now fails on the missing input.
\<close>

theorem removeStaff_other_id_counterexample:
  "\<not> matches_post_or_group page_guard (HoursId 1)
   \<and> removeStaff (HoursId 1) page_guard \<noteq> page_guard
   \<and> detached page_guard = {}
   \<and> detached (removeStaff (HoursId 1) page_guard) = {HoursId 1}
   \<and> snd (calculate server_down page_guard) =
       [Fetch (built_request page_guard), ConsoleError FetchError, AlertFailed FetchError]
   \<and> snd (calculate server_down (removeStaff (HoursId 1) page_guard)) =
       [ConsoleError TypeError, AlertFailed TypeError]"
proof -
  have before: "detached page_guard = {}"
    by (simp add: page_defs)
  have after: "detached (removeStaff (HoursId 1) page_guard) = {HoursId 1}"
    by (simp add: removeStaff_def page_defs)
  from before after have changed: "removeStaff (HoursId 1) page_guard \<noteq> page_guard"
    by auto
  have wf: "well_formed page_guard"
    by (simp add: well_formed_def all_groups_def page_defs)
  have whole: "detached page_guard = {}"
    by (simp add: page_defs)
  have nonempty: "entries_from 0 (post_cards page_guard) \<noteq> []"
    by (simp add: page_defs parse_defs card_staff_def group_valid_def)
  have sent: "snd (calculate server_down page_guard) =
      [Fetch (built_request page_guard), ConsoleError FetchError, AlertFailed FetchError]"
    using nonempty by (simp add: calculate_closed [OF wf whole] server_down_def caught_def)
  have fails: "snd (calculate server_down (removeStaff (HoursId 1) page_guard)) =
      [ConsoleError TypeError, AlertFailed TypeError]"
    by (simp add: calculate_def removeStaff_def page_defs value_defs caught_def)
  from before after changed sent fails show ?thesis
    by simp
qed

text \<open>
  C10, amended: \<open>removePost\<close> with an id that no card has returns the page unchanged.
  \<open>removeStaff\<close> returns the page unchanged when no element of the document has the id
  it is given: in particular for an id \<open>staff-P-N\<close> that no staff group has, and for the
  id of an input or a container that is not there. Given the id of an element that is
  there, whatever its kind, it removes that element. Neither handler has a statement
  that can throw, so the model gives them no error result.
\<close>

theorem remove_absent_element_is_noop:
  "((\<forall>p \<in> set (post_cards st). card_id p \<noteq> postId) \<longrightarrow> removePost postId st = st)
   \<and> ((\<forall>g \<in> set (all_groups st). group_id g \<noteq> staffId) \<longrightarrow>
        removeStaff (GroupId staffId) st = st)
   \<and> (\<not> element_present st elementId \<longrightarrow> removeStaff elementId st = st)
   \<and> (element_present st elementId \<longrightarrow> removeStaff elementId st = remove_element elementId st)"
proof -
  have "removePost postId st = st" if "\<forall>p \<in> set (post_cards st). card_id p \<noteq> postId"
  proof -
    from that have "getPostCard postId st = None"
      by (simp add: getPostCard_def find_None_iff_all)
    then show ?thesis by (simp add: removePost_def)
  qed
  moreover have "removeStaff (GroupId staffId) st = st"
    if "\<forall>g \<in> set (all_groups st). group_id g \<noteq> staffId"
  proof -
    from that have "getStaffGroup staffId st = None"
      by (simp add: getStaffGroup_def find_None_iff_all)
    then show ?thesis by (simp add: removeStaff_def)
  qed
  moreover have "removeStaff elementId st = st" if "\<not> element_present st elementId"
    using that by (simp add: removeStaff_def)
  moreover have "removeStaff elementId st = remove_element elementId st"
    if "element_present st elementId"
    using that by (simp add: removeStaff_def)
  ultimately show ?thesis by blast
qed

theorem remove_absent_element_is_noop_witness:
  "map card_id (post_cards page_two_groups) = [1, 2]
   \<and> removePost 5 page_two_groups = page_two_groups
   \<and> map group_id (all_groups page_two_groups) = [(1, 1), (1, 2), (2, 1)]
   \<and> removeStaff (GroupId (2, 2)) page_two_groups = page_two_groups
   \<and> \<not> element_present page_two_groups (HoursId 5)
   \<and> removeStaff (HoursId 5) page_two_groups = page_two_groups
   \<and> \<not> element_present page_hours_removed (HoursId 1)
   \<and> removeStaff (HoursId 1) page_hours_removed = page_hours_removed
   \<and> element_present page_guard (HoursId 1)
   \<and> detached (removeStaff (HoursId 1) page_guard) = {HoursId 1}"
proof -
  have card_ids: "map card_id (post_cards page_two_groups) = [1, 2]"
    by (simp add: page_two_groups_def page_defs)
  have group_ids: "map group_id (all_groups page_two_groups) = [(1, 1), (1, 2), (2, 1)]"
    by (simp add: all_groups_def page_two_groups_def page_defs)
  have "5 \<notin> set (map card_id (post_cards page_two_groups))"
    unfolding card_ids by simp
  then have cards: "\<forall>p \<in> set (post_cards page_two_groups). card_id p \<noteq> 5"
    by (rule not_in_map)
  have "(2, 2) \<notin> set (map group_id (all_groups page_two_groups))"
    unfolding group_ids by simp
  then have groups: "\<forall>g \<in> set (all_groups page_two_groups). group_id g \<noteq> (2, 2)"
    by (rule not_in_map)
  have absent: "\<not> element_present page_two_groups (HoursId 5)"
    by (simp add: page_two_groups_def page_defs)
  have gone: "\<not> element_present page_hours_removed (HoursId 1)"
    by (simp add: page_hours_removed_def removeStaff_def page_defs)
  have there: "element_present page_guard (HoursId 1)"
    by (simp add: page_defs)
  from remove_absent_element_is_noop [of page_two_groups 5 "(2, 2)" "HoursId 5"] cards groups absent
  have first: "removePost 5 page_two_groups = page_two_groups"
    and second: "removeStaff (GroupId (2, 2)) page_two_groups = page_two_groups"
    and third: "removeStaff (HoursId 5) page_two_groups = page_two_groups"
    by blast+
  from remove_absent_element_is_noop [of page_hours_removed 0 "(0, 0)" "HoursId 1"] gone
  have fourth: "removeStaff (HoursId 1) page_hours_removed = page_hours_removed"
    by blast
  from remove_absent_element_is_noop [of page_guard 0 "(0, 0)" "HoursId 1"] there
  have "removeStaff (HoursId 1) page_guard = remove_element (HoursId 1) page_guard"
    by blast
  then have fifth: "detached (removeStaff (HoursId 1) page_guard) = {HoursId 1}"
    by (simp add: page_defs)
  from card_ids first group_ids second absent third gone fourth there fifth show ?thesis
    by (simp only: simp_thms)
qed

end
